theory Spec2Isabelle
  imports Complex_Main "HOL-Library.Multiset" "HOL-Library.List_Lexorder" "HOL-Library.Char_ord"
begin

section \<open>Data model\<close>

text \<open>
  Python strings are \<open>string\<close>; with the lexicographic order on lists and the order on
  characters they compare as numpy compares the elements of a string array. A score is a
  float that the adapter only moves around (it never computes with it), so it is a \<open>real\<close>.
\<close>

type_synonym str = string
type_synonym label = string
type_synonym score = real

text \<open>
  Every exception the modelled code can meet is a value. \<open>Exception\<close> carries the message
  of a generic exception (the one \<open>main\<close> raises, or one raised by a collaborator).
\<close>

datatype error = IndexError | ValueError | KeyError | Exception str

text \<open>
  The batch classifier: \<open>classifier.predict(texts, k)\<close> returns the parallel sequences
  \<open>labels\<close> and \<open>probs\<close>, one entry per text. The sequential classifier:
  \<open>classifier.predict(doc, multi_class_prob=True)\<close> attaches \<open>doc.labels\<close>, a sequence of
  (value, score) entries, to the document of one text.
\<close>

type_synonym fasttext_classifier = "str list \<Rightarrow> nat \<Rightarrow> error + (label list list \<times> score list list)"
type_synonym flair_classifier = "str \<Rightarrow> error + (label \<times> score) list"

section \<open>numpy operations used by the predictors\<close>

text \<open>
  \<open>np.array(label)\<close> stores the labels in a string array, whose elements are padded with
  NUL characters to one width; an element read back, or compared, has its trailing NUL
  characters dropped. Two labels that differ in trailing NULs only are one key.
\<close>

definition np_str :: "str \<Rightarrow> str" where
  "np_str s = rev (dropWhile (\<lambda>c. c = CHR 0x00) (rev s))"

text \<open>
  An index sequence sorts a sequence of keys when it is a permutation of the positions along
  which the keys ascend. \<open>stable_order\<close> is the one that keeps equal keys in their order.
\<close>

definition sorts :: "'a::linorder list \<Rightarrow> nat list \<Rightarrow> bool" where
  "sorts ks order = (mset order = mset [0..<length ks] \<and> sorted (map ((!) ks) order))"

definition stable_order :: "'a::linorder list \<Rightarrow> nat list" where
  "stable_order ks = map snd (sort_key fst (zip ks [0..<length ks]))"

text \<open>
  \<open>np.argsort(np.array(label))\<close>: the indices that sort the keys of the labels. The default
  kind is quicksort, which ends in an insertion sort on short ranges: with distinct keys
  the sorting indices are unique, and up to 16 elements equal keys keep their order. On a
  longer array with repeated keys the order among equal keys depends on the partitioning,
  and the model fixes no more than that the indices sort the keys.
\<close>

definition argsort :: "label list \<Rightarrow> nat list" where
  "argsort label =
     (let ks = map np_str label
      in if distinct ks \<or> length ks \<le> 16 then stable_order ks
         else (SOME order. sorts ks order))"

text \<open>
  \<open>prob[order]\<close>: integer-array indexing, one element per index; an index outside the
  array raises IndexError.
\<close>

definition index_by :: "'a list \<Rightarrow> nat list \<Rightarrow> error + 'a list" where
  "index_by prob order =
     (if list_all (\<lambda>i. i < length prob) order then Inr (map ((!) prob) order)
      else Inl IndexError)"

text \<open>
  \<open>np.array(rows)\<close> on a sequence of score sequences: a two-dimensional array when all rows
  have one length; rows of different lengths raise ValueError (numpy from 1.24 on).
\<close>

definition uniform :: "'a list list \<Rightarrow> bool" where
  "uniform rows = (case rows of [] \<Rightarrow> True | r # rs \<Rightarrow> list_all (\<lambda>x. length x = length r) rs)"

definition np_array :: "'a list list \<Rightarrow> error + 'a list list" where
  "np_array rows = (if uniform rows then Inr rows else Inl ValueError)"

section \<open>The predictors\<close>

text \<open>
  The loop of \<open>fasttext_predictor\<close> (lines 35-38): \<open>zip\<close> stops at the shortest of its
  three arguments; every iteration sorts the scores of one text by its labels.
\<close>

fun fasttext_rows :: "label list list \<Rightarrow> score list list \<Rightarrow> str list \<Rightarrow> error + score list list" where
  "fasttext_rows (label # labels) (prob # probs) (text # texts) =
     (case index_by prob (argsort label) of
        Inl e \<Rightarrow> Inl e
      | Inr row \<Rightarrow>
          (case fasttext_rows labels probs texts of
             Inl e \<Rightarrow> Inl e
           | Inr result \<Rightarrow> Inr (row # result)))"
| "fasttext_rows _ _ _ = Inr []"

definition fasttext_predictor :: "fasttext_classifier \<Rightarrow> str list \<Rightarrow> error + score list list" where
  "fasttext_predictor classifier texts =
     (case classifier texts 5 of
        Inl e \<Rightarrow> Inl e
      | Inr (labels, probs) \<Rightarrow>
          (case fasttext_rows labels probs texts of
             Inl e \<Rightarrow> Inl e
           | Inr result \<Rightarrow> np_array result))"

text \<open>
  The first loop of \<open>flair_predictor\<close> (lines 47-54): one call of the classifier per text,
  in input order, collecting the label values and the scores of the document.
\<close>

fun flair_collect :: "flair_classifier \<Rightarrow> str list \<Rightarrow> error + (label list list \<times> score list list)" where
  "flair_collect classifier [] = Inr ([], [])"
| "flair_collect classifier (text # texts) =
     (case classifier text of
        Inl e \<Rightarrow> Inl e
      | Inr doc_labels \<Rightarrow>
          (case flair_collect classifier texts of
             Inl e \<Rightarrow> Inl e
           | Inr (labels, probs) \<Rightarrow>
               Inr (map fst doc_labels # labels, map snd doc_labels # probs)))"

text \<open>The second loop of \<open>flair_predictor\<close> (lines 58-61).\<close>

fun flair_rows :: "label list list \<Rightarrow> score list list \<Rightarrow> str list \<Rightarrow> error + score list list" where
  "flair_rows (label # labels) (prob # probs) (text # texts) =
     (case index_by prob (argsort label) of
        Inl e \<Rightarrow> Inl e
      | Inr row \<Rightarrow>
          (case flair_rows labels probs texts of
             Inl e \<Rightarrow> Inl e
           | Inr result \<Rightarrow> Inr (row # result)))"
| "flair_rows _ _ _ = Inr []"

definition flair_predictor :: "flair_classifier \<Rightarrow> str list \<Rightarrow> error + score list list" where
  "flair_predictor classifier texts =
     (case flair_collect classifier texts of
        Inl e \<Rightarrow> Inl e
      | Inr (labels, probs0) \<Rightarrow>
          (case np_array probs0 of
             Inl e \<Rightarrow> Inl e
           | Inr probs \<Rightarrow>
               (case flair_rows labels probs texts of
                  Inl e \<Rightarrow> Inl e
                | Inr result \<Rightarrow> np_array result)))"

section \<open>The method registry and the entry point\<close>

text \<open>The dictionary \<open>METHODS\<close>, in insertion order.\<close>

definition METHODS :: "(str \<times> str) list" where
  "METHODS = [(''fasttext'', ''models/fasttext/sst.bin''),
              (''flair'', ''models/flair/best-model-elmo.pt'')]"

definition method_list :: "str list" where
  "method_list = map fst METHODS"

fun join :: "str \<Rightarrow> str list \<Rightarrow> str" where
  "join sep [] = []"
| "join sep [x] = x"
| "join sep (x # y # ys) = x @ sep @ join sep (y # ys)"

definition samples :: "str list" where
  "samples = [''It 's not horrible , just horribly mediocre .'',
              ''Light , cute and forgettable .'']"

text \<open>Decimal rendering of an index, as \<open>format\<close> does for an int.\<close>

fun string_of_nat :: "nat \<Rightarrow> str" where
  "string_of_nat n =
     (if n < 10 then [''0123456789'' ! n]
      else string_of_nat (n div 10) @ [''0123456789'' ! (n mod 10)])"

declare string_of_nat.simps [simp del]

text \<open>
  What the process does to the outside, in order: calls of the two loaders, of
  \<open>explain_instance\<close> and of \<open>save_to_file\<close>, lines printed, exceptions printed by the
  handler, and the message of \<open>parser.error\<close>.
\<close>

datatype event =
    Load str str
  | Explain str
  | Save str
  | Print str
  | Print_exception error
  | Parser_error str

text \<open>
  The collaborators outside the repository. Each call takes the state of the outside world
  and returns the new one with its result, so a call may fail at one time and succeed at
  another. \<open>explain_instance\<close> receives the text, the scoring callback, \<open>top_labels\<close> and
  \<open>num_features\<close>; the explainer itself is built with whitespace splitting, \<open>bow=False\<close>
  and the class names 1..5.
\<close>

record ('w, 'e) collaborators =
  load_fasttext :: "str \<Rightarrow> 'w \<Rightarrow> (error + fasttext_classifier) \<times> 'w"
  load_flair :: "str \<Rightarrow> 'w \<Rightarrow> (error + flair_classifier) \<times> 'w"
  explain_instance ::
    "str \<Rightarrow> (str list \<Rightarrow> error + score list list) \<Rightarrow> nat \<Rightarrow> nat \<Rightarrow> 'w \<Rightarrow> (error + 'e) \<times> 'w"
  save_to_file :: "'e \<Rightarrow> str \<Rightarrow> 'w \<Rightarrow> (error + unit) \<times> 'w"

text \<open>\<open>main(method, path_to_model, text)\<close>, lines 66-98.\<close>

definition main ::
  "('w, 'e) collaborators \<Rightarrow> str \<Rightarrow> str \<Rightarrow> str \<Rightarrow> 'w \<times> event list
     \<Rightarrow> (error + 'e) \<times> 'w \<times> event list" where
  "main env method path_to_model text st =
     (case st of (w, trace) \<Rightarrow>
        if method = ''fasttext'' then
          (case load_fasttext env path_to_model w of
             (Inl e, w1) \<Rightarrow> (Inl e, w1, trace @ [Load method path_to_model])
           | (Inr classifier, w1) \<Rightarrow>
               (case explain_instance env text (fasttext_predictor classifier) 1 10 w1 of
                  (explanation, w2) \<Rightarrow> (explanation, w2, trace @ [Load method path_to_model, Explain text])))
        else if method = ''flair'' then
          (case load_flair env path_to_model w of
             (Inl e, w1) \<Rightarrow> (Inl e, w1, trace @ [Load method path_to_model])
           | (Inr classifier, w1) \<Rightarrow>
               (case explain_instance env text (flair_predictor classifier) 1 10 w1 of
                  (explanation, w2) \<Rightarrow> (explanation, w2, trace @ [Load method path_to_model, Explain text])))
        else
          (Inl (Exception ''Requested method {} explainer function not implemented!''), w, trace))"

text \<open>
  The loop over \<open>enumerate(samples)\<close>, lines 125-131; \<open>i\<close> is the index of the first text
  of the list. An exception leaves the loop with the texts that follow untouched. The file
  name is kept relative to the directory of the script.
\<close>

fun explain_samples ::
  "('w, 'e) collaborators \<Rightarrow> str \<Rightarrow> str \<Rightarrow> nat \<Rightarrow> str list \<Rightarrow> 'w \<times> event list
     \<Rightarrow> (error + unit) \<times> 'w \<times> event list" where
  "explain_samples env method path_to_model i [] st = (Inr (), st)"
| "explain_samples env method path_to_model i (text # texts) st =
     (case main env method path_to_model text st of
        (Inl e, st1) \<Rightarrow> (Inl e, st1)
      | (Inr explanation, w1, trace1) \<Rightarrow>
          (let output_filename = string_of_nat i @ ''-explanation-'' @ method @ ''.html''
           in case save_to_file env explanation output_filename w1 of
                (Inl e, w2) \<Rightarrow> (Inl e, w2, trace1 @ [Save output_filename])
              | (Inr u, w2) \<Rightarrow>
                  explain_samples env method path_to_model (Suc i) texts
                    (w2, trace1 @ [Save output_filename,
                                 Print (''Output explainer data '' @ string_of_nat (i + 1) @ '' to HTML'')])))"

text \<open>The body of the \<open>try\<close> statement, lines 123-131.\<close>

definition try_body ::
  "('w, 'e) collaborators \<Rightarrow> str \<Rightarrow> 'w \<times> event list \<Rightarrow> (error + unit) \<times> 'w \<times> event list" where
  "try_body env method st =
     (case map_of METHODS method of
        None \<Rightarrow> (Inl KeyError, st)
      | Some path_to_model \<Rightarrow> explain_samples env method path_to_model 0 samples st)"

text \<open>
  The loop over \<open>args.method\<close>, lines 119-133. \<open>parser.error\<close> writes its message and
  leaves the process with status 2; a run that reaches the end of the list leaves it with
  status 0. The handler prints the exception and the loop goes on.
\<close>

fun run_methods ::
  "('w, 'e) collaborators \<Rightarrow> str list \<Rightarrow> 'w \<times> event list \<Rightarrow> int \<times> 'w \<times> event list" where
  "run_methods env [] st = (0, st)"
| "run_methods env (method # methods) st =
     (if method \<notin> set (map fst METHODS) then
        (case st of (w, trace) \<Rightarrow>
           (2, w, trace @ [Parser_error (''Please choose from the below existing methods! '' @ [CHR 0x0A]
                                        @ join '', '' method_list)]))
      else
        (case try_body env method st of
           (Inl e, w1, trace1) \<Rightarrow> run_methods env methods (w1, trace1 @ [Print_exception e])
         | (Inr u, st1) \<Rightarrow> run_methods env methods st1))"

section \<open>Concrete collaborators for the examples\<close>

text \<open>
  Scenario 3 of the specification: a classifier whose labels come back as 3, 1, 5, 2, 4,
  once as a batch classifier and once as a sequential one.
\<close>

definition scenario3_fasttext :: fasttext_classifier where
  "scenario3_fasttext texts k =
     Inr (map (\<lambda>t. [''3'', ''1'', ''5'', ''2'', ''4'']) texts,
          map (\<lambda>t. [0.1, 0.5, 0.05, 0.2, 0.15]) texts)"

definition scenario3_flair :: flair_classifier where
  "scenario3_flair t = Inr [(''3'', 0.1), (''1'', 0.5), (''5'', 0.05), (''2'', 0.2), (''4'', 0.15)]"

text \<open>A batch model that knows three labels only: asked for the top k, it returns at most three.\<close>

definition three_label_fasttext :: fasttext_classifier where
  "three_label_fasttext texts k =
     Inr (map (\<lambda>t. take k [''__label__2'', ''__label__1'', ''__label__3'']) texts,
          map (\<lambda>t. take k [0.5, 0.3, 0.2]) texts)"

text \<open>A sequential model with two classes.\<close>

definition two_label_flair :: flair_classifier where
  "two_label_flair t = Inr [(''2'', 0.6), (''1'', 0.4)]"

text \<open>The same output as scenario 3 with the pairs in ascending label order.\<close>

definition ascending_flair :: flair_classifier where
  "ascending_flair t = Inr [(''1'', 0.5), (''2'', 0.2), (''3'', 0.1), (''4'', 0.15), (''5'', 0.05)]"

definition ascending_fasttext :: fasttext_classifier where
  "ascending_fasttext texts k =
     Inr (map (\<lambda>t. [''1'', ''2'', ''3'', ''4'', ''5'']) texts,
          map (\<lambda>t. [0.5, 0.2, 0.1, 0.15, 0.05]) texts)"

text \<open>A batch classifier that answers with one prediction whatever the number of texts.\<close>

definition single_answer_fasttext :: fasttext_classifier where
  "single_answer_fasttext texts k = Inr ([[''2'', ''1'']], [[0.6, 0.4]])"

text \<open>
  An outside world without state in which every call succeeds, and one in which the flair
  model cannot be loaded.
\<close>

definition quiet_env :: "(unit, unit) collaborators" where
  "quiet_env =
     \<lparr> load_fasttext = (\<lambda>path w. (Inr scenario3_fasttext, w)),
       load_flair = (\<lambda>path w. (Inr scenario3_flair, w)),
       explain_instance = (\<lambda>text classifier_fn top_labels num_features w. (Inr (), w)),
       save_to_file = (\<lambda>explanation filename w. (Inr (), w)) \<rparr>"

definition no_flair_env :: "(unit, unit) collaborators" where
  "no_flair_env = quiet_env \<lparr> load_flair := (\<lambda>path w. (Inl (Exception ''model file not found''), w)) \<rparr>"



section \<open>Sorting by label\<close>

lemma np_str_plain: "s = [] \<or> last s \<noteq> CHR 0x00 \<Longrightarrow> np_str s = s"
proof (cases "s = []")
  case True
  then show ?thesis by (simp add: np_str_def)
next
  case False
  assume "s = [] \<or> last s \<noteq> CHR 0x00"
  then have "hd (rev s) \<noteq> CHR 0x00" using False by (simp add: hd_rev)
  then have "dropWhile (\<lambda>c. c = CHR 0x00) (rev s) = rev s"
    using False by (cases "rev s") simp_all
  then show ?thesis by (simp add: np_str_def)
qed

lemma map_insort_key:
  "map g (insort_key (\<lambda>x. f (g x)) a xs) = insort_key f (g a) (map g xs)"
  by (induction xs) auto

lemma map_sort_key:
  "map g (sort_key (\<lambda>x. f (g x)) xs) = sort_key f (map g xs)"
  by (induction xs) (auto simp: map_insort_key)

lemma zip_upt_conv:
  "zip (map f ps) [0..<length ps] = map (\<lambda>i. (f (ps ! i), i)) [0..<length ps]"
  by (rule nth_equalityI) auto

lemma stable_order_map:
  "stable_order (map f ps) = sort_key (\<lambda>i. f (ps ! i)) [0..<length ps]"
proof -
  have "sort_key fst (map (\<lambda>i. (f (ps ! i), i)) [0..<length ps])
        = map (\<lambda>i. (f (ps ! i), i)) (sort_key (\<lambda>i. f (ps ! i)) [0..<length ps])"
    using map_sort_key [of "\<lambda>i. (f (ps ! i), i)" fst "[0..<length ps]"] by simp
  then show ?thesis
    by (simp add: stable_order_def zip_upt_conv comp_def)
qed

lemma stable_order_conv: "stable_order xs = sort_key ((!) xs) [0..<length xs]"
  using stable_order_map [of "\<lambda>x. x" xs] by simp

lemma nths_stable_order: "map ((!) ps) (stable_order (map f ps)) = sort_key f ps"
proof -
  have "map ((!) ps) (sort_key (\<lambda>i. f (ps ! i)) [0..<length ps]) = sort_key f (map ((!) ps) [0..<length ps])"
    by (rule map_sort_key)
  then show ?thesis
    by (simp add: stable_order_map map_nth)
qed

lemma sorts_stable_order: "sorts ks (stable_order ks)"
proof -
  have "map ((!) ks) (stable_order ks) = sort ks"
    using nths_stable_order [of ks "\<lambda>x. x"] by simp
  then show ?thesis by (simp add: sorts_def stable_order_conv)
qed

lemma stable_order_sorted: "sorted xs \<Longrightarrow> stable_order xs = [0..<length xs]"
  unfolding stable_order_conv
  by (rule sort_key_id_if_sorted) (simp add: map_nth)

text \<open>Whatever the keys, \<open>argsort\<close> returns indices that sort them.\<close>

lemma sorts_argsort: "sorts (map np_str label) (argsort label)"
proof (cases "distinct (map np_str label) \<or> length (map np_str label) \<le> 16")
  case True
  then show ?thesis by (simp add: argsort_def Let_def sorts_stable_order del: length_map)
next
  case False
  then have "argsort label = (SOME order. sorts (map np_str label) order)"
    by (simp add: argsort_def Let_def del: length_map)
  then show ?thesis
    using someI [of "sorts (map np_str label)", OF sorts_stable_order] by simp
qed

lemma mset_argsort [simp]: "mset (argsort label) = mset [0..<length label]"
  using sorts_argsort [of label] by (simp add: sorts_def)

lemma set_argsort [simp]: "set (argsort label) = {0..<length label}"
proof -
  have "set (argsort label) = set [0..<length label]"
    by (rule mset_eq_setD) (rule mset_argsort)
  then show ?thesis by simp
qed

lemma length_argsort [simp]: "length (argsort label) = length label"
proof -
  have "length (argsort label) = length [0..<length label]"
    by (rule mset_eq_length) (rule mset_argsort)
  then show ?thesis by simp
qed

lemma distinct_argsort [simp]: "distinct (argsort label)"
proof -
  have "distinct (argsort label) = distinct [0..<length label]"
    by (rule mset_eq_imp_distinct_iff) (rule mset_argsort)
  then show ?thesis by simp
qed

lemma sorted_argsort: "sorted (map (\<lambda>i. np_str (label ! i)) (argsort label))"
proof -
  have "sorted (map ((!) (map np_str label)) (argsort label))"
    using sorts_argsort [of label] by (simp add: sorts_def)
  moreover have "map ((!) (map np_str label)) (argsort label) = map (\<lambda>i. np_str (label ! i)) (argsort label)"
    by (rule map_cong) simp_all
  ultimately show ?thesis by simp
qed

lemma argsort_distinct:
  "distinct (map np_str label) \<Longrightarrow> argsort label = stable_order (map np_str label)"
  by (simp add: argsort_def Let_def)

text \<open>
  Indexing the scores by the sorting indices of the labels fails exactly when there are
  fewer scores than labels.
\<close>

lemma index_by_argsort:
  "index_by prob (argsort label) =
     (if length label \<le> length prob then Inr (map ((!) prob) (argsort label))
      else Inl IndexError)"
proof (cases "length label \<le> length prob")
  case True
  then have "list_all (\<lambda>i. i < length prob) (argsort label)"
    by (auto simp: list_all_iff)
  then show ?thesis using True by (simp add: index_by_def)
next
  case False
  then have "length label - 1 \<in> set (argsort label)" "\<not> length label - 1 < length prob"
    by auto
  then have "\<not> list_all (\<lambda>i. i < length prob) (argsort label)"
    unfolding list_all_iff by blast
  then show ?thesis using False by (simp add: index_by_def)
qed

text \<open>
  With distinct keys, indexing the scores by the sorting indices is sorting the
  (label, score) pairs by key and keeping the scores.
\<close>

lemma take_argsort:
  assumes "length label \<le> length prob" and "distinct (map np_str label)"
  shows "map ((!) prob) (argsort label)
         = map snd (sort_key (\<lambda>x. np_str (fst x)) (zip label prob))"
proof -
  let ?ps = "zip label prob"
  have lab: "map fst ?ps = label" using assms(1) by (simp add: map_fst_zip_take)
  have "map np_str (map fst ?ps) = map (\<lambda>x. np_str (fst x)) ?ps"
    by (simp only: map_map comp_def)
  then have keys: "map np_str label = map (\<lambda>x. np_str (fst x)) ?ps"
    by (simp only: lab)
  have "argsort label = stable_order (map np_str label)"
    by (rule argsort_distinct [OF assms(2)])
  then have o: "argsort label = stable_order (map (\<lambda>x. np_str (fst x)) ?ps)"
    by (simp only: keys)
  have "map ((!) prob) (argsort label) = map (\<lambda>i. snd (?ps ! i)) (argsort label)"
    using assms(1) by (intro map_cong) auto
  also have "\<dots> = map snd (map ((!) ?ps) (argsort label))"
    by (simp add: comp_def)
  also have "\<dots> = map snd (map ((!) ?ps) (stable_order (map (\<lambda>x. np_str (fst x)) ?ps)))"
    by (simp only: o)
  also have "\<dots> = map snd (sort_key (\<lambda>x. np_str (fst x)) ?ps)"
    by (simp only: nths_stable_order)
  finally show ?thesis .
qed

lemma filter_key_distinct:
  "distinct (map f xs) \<Longrightarrow> k \<in> set xs \<Longrightarrow> filter (\<lambda>x. f k = f x) xs = [k]"
proof (induction xs)
  case Nil
  then show ?case by simp
next
  case (Cons a xs)
  show ?case
  proof (cases "k = a")
    case True
    have "filter (\<lambda>x. f a = f x) xs = []"
      using Cons.prems(1) by (auto simp: filter_empty_conv)
    with True show ?thesis by simp
  next
    case False
    then have k: "k \<in> set xs" using Cons.prems(2) by simp
    have "f a \<notin> f ` set xs" using Cons.prems(1) by simp
    then have "f k \<noteq> f a" using k by (metis image_eqI)
    then show ?thesis using k Cons by simp
  qed
qed

text \<open>With distinct keys the sorted sequence depends on the elements only, not on their order.\<close>

lemma sort_key_distinct_perm:
  assumes "mset ps' = mset ps" and "distinct (map f ps)"
  shows "sort_key f ps' = sort_key f ps"
proof (rule properties_for_sort_key)
  show "mset (sort_key f ps) = mset ps'" using assms(1) by simp
  have d': "distinct (map f ps')"
    using assms by (metis mset_eq_imp_distinct_iff mset_map)
  have ds: "distinct (map f (sort_key f ps))"
    using assms(2) by (metis mset_eq_imp_distinct_iff mset_map mset_sort)
  show "filter (\<lambda>x. f k = f x) (sort_key f ps) = filter (\<lambda>x. f k = f x) ps'"
    if "k \<in> set (sort_key f ps)" for k
  proof -
    have "k \<in> set ps'" using that assms(1) by (metis mset_eq_setD set_sort)
    then show ?thesis using that d' ds by (simp add: filter_key_distinct)
  qed
  show "sorted (map f (sort_key f ps))" by simp
qed

text \<open>With distinct keys there is one index sequence that sorts them.\<close>

lemma sorts_unique:
  assumes "distinct ks" and "sorts ks order" and "sorts ks order'"
  shows "order' = order"
proof -
  have m: "mset order = mset [0..<length ks]" "mset order' = mset [0..<length ks]"
    using assms(2,3) by (simp_all add: sorts_def)
  have "distinct order = distinct [0..<length ks]" "distinct order' = distinct [0..<length ks]"
    by (rule mset_eq_imp_distinct_iff, rule m(1), rule mset_eq_imp_distinct_iff, rule m(2))
  moreover have "set order = set [0..<length ks]" "set order' = set [0..<length ks]"
    by (rule mset_eq_setD, rule m(1), rule mset_eq_setD, rule m(2))
  ultimately have d: "distinct order" "distinct order'" "set order = {0..<length ks}"
    "set order' = {0..<length ks}"
    by simp_all
  have inj: "inj_on ((!) ks) {0..<length ks}"
    using assms(1) by (auto simp: inj_on_def nth_eq_iff_index_eq)
  have "sorted (map ((!) ks) order)" "sorted (map ((!) ks) order')"
    using assms(2,3) by (simp_all add: sorts_def)
  moreover have "distinct (map ((!) ks) order)" "distinct (map ((!) ks) order')"
    using d inj by (simp_all add: distinct_map)
  moreover have "set (map ((!) ks) order) = set (map ((!) ks) order')"
    using d by simp
  ultimately have "map ((!) ks) order' = map ((!) ks) order"
    by (intro sorted_distinct_set_unique) simp_all
  moreover have "inj_on ((!) ks) (set order' \<union> set order)"
    using inj d by simp
  ultimately show ?thesis
    by (simp only: inj_on_map_eq_map)
qed

section \<open>Closed forms of the two predictors\<close>

lemma flair_rows_eq: "flair_rows labels probs texts = fasttext_rows labels probs texts"
  by (induction labels probs texts rule: fasttext_rows.induct) (auto split: sum.splits)

lemma fasttext_rows_conv:
  "fasttext_rows labels probs texts =
     (if list_all (\<lambda>(l, p). length l \<le> length p) (take (length texts) (zip labels probs))
      then Inr (map (\<lambda>(l, p). map ((!) p) (argsort l)) (take (length texts) (zip labels probs)))
      else Inl IndexError)"
  by (induction labels probs texts rule: fasttext_rows.induct)
     (simp_all add: index_by_argsort)

lemma uniform_lengths:
  "uniform rows = (case map length rows of [] \<Rightarrow> True | n # ns \<Rightarrow> list_all (\<lambda>m. m = n) ns)"
  by (cases rows) (simp_all add: uniform_def list_all_iff)

lemma uniform_cong: "map length xs = map length ys \<Longrightarrow> uniform xs = uniform ys"
  by (simp add: uniform_lengths)

lemma uniform_same_length:
  assumes "\<forall>r\<in>set rows. length r = n"
  shows "uniform rows"
  using assms by (cases rows) (auto simp: uniform_def list_all_iff)

lemma np_array_Inr [simp]: "np_array rows = Inr r \<longleftrightarrow> uniform rows \<and> r = rows"
  by (auto simp: np_array_def)

lemma fasttext_predictor_conv:
  assumes "c texts 5 = Inr (labels, probs)"
  shows "fasttext_predictor c texts =
     (if list_all (\<lambda>(l, p). length l \<le> length p) (take (length texts) (zip labels probs))
      then (if uniform (map fst (take (length texts) (zip labels probs)))
            then Inr (map (\<lambda>(l, p). map ((!) p) (argsort l)) (take (length texts) (zip labels probs)))
            else Inl ValueError)
      else Inl IndexError)"
proof -
  let ?rows = "take (length texts) (zip labels probs)"
  let ?res = "map (\<lambda>(l, p). map ((!) p) (argsort l)) ?rows"
  have "map length ?res = map length (map fst ?rows)"
    by auto
  then have "uniform ?res = uniform (map fst ?rows)"
    by (rule uniform_cong)
  then show ?thesis
    using assms by (simp add: fasttext_predictor_def fasttext_rows_conv np_array_def)
qed

lemma flair_collect_ok:
  "\<forall>t\<in>set texts. c t = Inr (dl t) \<Longrightarrow>
   flair_collect c texts = Inr (map (\<lambda>t. map fst (dl t)) texts, map (\<lambda>t. map snd (dl t)) texts)"
  by (induction texts) auto

lemma flair_collect_Inr:
  "flair_collect c texts = Inr (labels, probs) \<Longrightarrow> \<forall>t\<in>set texts. c t = Inr (projr (c t))"
  by (induction texts arbitrary: labels probs) (auto split: sum.splits)

lemma flair_collect_length:
  "flair_collect c texts = Inr (labels, probs) \<Longrightarrow>
   length labels = length texts \<and> length probs = length texts"
  by (induction texts arbitrary: labels probs) (auto split: sum.splits)

lemma flair_predictor_conv:
  assumes "\<forall>t\<in>set texts. c t = Inr (dl t)"
  shows "flair_predictor c texts =
     (if uniform (map (\<lambda>t. map snd (dl t)) texts)
      then Inr (map (\<lambda>t. map ((!) (map snd (dl t))) (argsort (map fst (dl t)))) texts)
      else Inl ValueError)"
proof -
  let ?labels = "map (\<lambda>t. map fst (dl t)) texts"
  let ?probs = "map (\<lambda>t. map snd (dl t)) texts"
  let ?res = "map (\<lambda>t. map ((!) (map snd (dl t))) (argsort (map fst (dl t)))) texts"
  have rows: "take (length texts) (zip ?labels ?probs) = map (\<lambda>t. (map fst (dl t), map snd (dl t))) texts"
    by (simp add: zip_map_map zip_same_conv_map)
  have r: "flair_rows ?labels ?probs texts = Inr ?res"
    by (simp add: flair_rows_eq fasttext_rows_conv rows list_all_iff comp_def)
  have "map length ?res = map length ?probs" by simp
  then have "uniform ?res = uniform ?probs" by (rule uniform_cong)
  then show ?thesis
    using flair_collect_ok [OF assms] r
    by (simp add: flair_predictor_def np_array_def)
qed

lemma flair_predictor_answers:
  assumes "flair_predictor c texts = Inr result"
  shows "\<forall>t\<in>set texts. c t = Inr (projr (c t))"
proof -
  obtain labels probs where "flair_collect c texts = Inr (labels, probs)"
    using assms by (auto simp: flair_predictor_def split: sum.splits)
  then show ?thesis by (rule flair_collect_Inr)
qed

section \<open>Rows of the result\<close>

lemma fasttext_predictor_row:
  assumes "fasttext_predictor c texts = Inr result" and "c texts 5 = Inr (labels, probs)"
  shows "length result = min (length labels) (min (length probs) (length texts))"
    and "i < length result \<Longrightarrow> length (labels ! i) \<le> length (probs ! i)"
    and "i < length result \<Longrightarrow> result ! i = map ((!) (probs ! i)) (argsort (labels ! i))"
proof -
  let ?rows = "take (length texts) (zip labels probs)"
  have ok: "list_all (\<lambda>(l, p). length l \<le> length p) ?rows"
    and res: "result = map (\<lambda>(l, p). map ((!) p) (argsort l)) ?rows"
    using assms by (auto simp: fasttext_predictor_conv [of c texts labels probs] split: if_splits)
  show len: "length result = min (length labels) (min (length probs) (length texts))"
    by (simp add: res min.commute min.left_commute)
  {
    assume i: "i < length result"
    then have ilen: "i < length ?rows" using res by simp
    then have row: "?rows ! i = (labels ! i, probs ! i)" by simp
    have mem: "?rows ! i \<in> set ?rows" using ilen by (rule nth_mem)
    show "length (labels ! i) \<le> length (probs ! i)"
      using ok mem unfolding row list_all_iff by auto
    show "result ! i = map ((!) (probs ! i)) (argsort (labels ! i))"
      using ilen row by (simp add: res)
  }
qed

lemma flair_predictor_row:
  assumes "flair_predictor c texts = Inr result"
  shows "length result = length texts"
    and "i < length texts \<Longrightarrow> c (texts ! i) = Inr dl \<Longrightarrow>
         result ! i = map ((!) (map snd dl)) (argsort (map fst dl))"
proof -
  have all: "\<forall>t\<in>set texts. c t = Inr (projr (c t))"
    using assms by (rule flair_predictor_answers)
  have res: "result = map (\<lambda>t. map ((!) (map snd (projr (c t)))) (argsort (map fst (projr (c t))))) texts"
    using assms by (simp add: flair_predictor_conv [OF all] split: if_splits)
  show "length result = length texts" by (simp add: res)
  {
    assume i: "i < length texts" and dl: "c (texts ! i) = Inr dl"
    show "result ! i = map ((!) (map snd dl)) (argsort (map fst dl))"
      using i dl res by simp
  }
qed

lemma fasttext_predictor_returns:
  assumes c: "c texts 5 = Inr (labels, probs)"
    and l: "\<forall>l\<in>set labels. length l = n" and p: "\<forall>p\<in>set probs. length p = n"
  shows "fasttext_predictor c texts
         = Inr (map (\<lambda>(l, p). map ((!) p) (argsort l)) (take (length texts) (zip labels probs)))"
proof -
  let ?rows = "take (length texts) (zip labels probs)"
  have each: "length l = n \<and> length p = n" if "(l, p) \<in> set ?rows" for l p
  proof -
    have "(l, p) \<in> set (zip labels probs)" using that by (rule in_set_takeD)
    then have "l \<in> set labels" "p \<in> set probs"
      by (rule set_zip_leftD, rule set_zip_rightD)
    then show ?thesis using l p by simp
  qed
  have ok: "list_all (\<lambda>(l, p). length l \<le> length p) ?rows"
    unfolding list_all_iff
  proof
    fix x assume x: "x \<in> set ?rows"
    obtain l p where lp: "x = (l, p)" by (cases x)
    show "case x of (l, p) \<Rightarrow> length l \<le> length p"
      using each [of l p] x unfolding lp by simp
  qed
  have "\<forall>r\<in>set (map fst ?rows). length r = n"
  proof
    fix r assume "r \<in> set (map fst ?rows)"
    then obtain x where x: "x \<in> set ?rows" and r: "r = fst x" by auto
    obtain l p where lp: "x = (l, p)" by (cases x)
    show "length r = n" using each [of l p] x unfolding r lp by simp
  qed
  then have "uniform (map fst ?rows)" by (rule uniform_same_length)
  then show ?thesis
    using ok by (simp only: fasttext_predictor_conv [of c texts labels probs, OF c] if_True)
qed

section \<open>Distinct keys\<close>

lemma keys_along: "map ((!) (map np_str label)) (argsort label) = map (\<lambda>i. np_str (label ! i)) (argsort label)"
  by (rule map_cong) simp_all

lemma strict_sorted_argsort:
  assumes "distinct (map np_str label)"
  shows "sorted_wrt (<) (map (\<lambda>i. np_str (label ! i)) (argsort label))"
proof -
  have "inj_on ((!) (map np_str label)) (set (argsort label))"
    unfolding inj_on_def
  proof (intro ballI impI)
    fix x y assume "x \<in> set (argsort label)" "y \<in> set (argsort label)"
      and eq: "map np_str label ! x = map np_str label ! y"
    then have "x < length (map np_str label)" "y < length (map np_str label)" by simp_all
    then show "x = y" using assms eq by (simp only: nth_eq_iff_index_eq)
  qed
  then have "distinct (map ((!) (map np_str label)) (argsort label))"
    by (simp add: distinct_map)
  then have "distinct (map (\<lambda>i. np_str (label ! i)) (argsort label))"
    by (simp only: keys_along)
  then show ?thesis
    using sorted_argsort [of label] by (simp add: strict_sorted_iff)
qed

lemma argsort_ascending:
  assumes "sorted_wrt (<) (map np_str label)"
  shows "argsort label = [0..<length label]"
proof -
  have "sorted (map np_str label)" "distinct (map np_str label)"
    using assms by (simp_all add: strict_sorted_iff)
  then show ?thesis
    using stable_order_sorted [of "map np_str label"] by (simp add: argsort_distinct)
qed

text \<open>
  Two parallel pairs of sequences that hold the same (label, score) pairs, with distinct
  keys, give the same row.
\<close>

lemma row_perm:
  assumes "length l = length p" "length l' = length p'"
    and "mset (zip l' p') = mset (zip l p)" and "distinct (map np_str l)"
  shows "map ((!) p') (argsort l') = map ((!) p) (argsort l)"
    and "length l' = length l"
proof -
  have "mset (map fst (zip l' p')) = mset (map fst (zip l p))"
    using assms(3) by (metis mset_map)
  then have ml: "mset l' = mset l"
    using assms(1,2) by (simp add: map_fst_zip_take)
  then have "mset (map np_str l') = mset (map np_str l)" by (metis mset_map)
  then have d': "distinct (map np_str l')"
    using assms(4) by (metis mset_eq_imp_distinct_iff)
  have dz: "distinct (map (\<lambda>x. np_str (fst x)) (zip l p))"
  proof -
    have "map (\<lambda>x. np_str (fst x)) (zip l p) = map np_str (map fst (zip l p))"
      by (simp only: map_map comp_def)
    then show ?thesis using assms(1,4) by (simp add: map_fst_zip_take)
  qed
  have "sort_key (\<lambda>x. np_str (fst x)) (zip l' p') = sort_key (\<lambda>x. np_str (fst x)) (zip l p)"
    using assms(3) dz by (rule sort_key_distinct_perm)
  then show "map ((!) p') (argsort l') = map ((!) p) (argsort l)"
    using assms(1,2,4) d' by (simp add: take_argsort)
  show "length l' = length l" using ml by (rule mset_eq_length)
qed

section \<open>The normalization step\<close>

text \<open>
  Claim C1. When a predictor returns a result and the native labels of a text are distinct
  (as elements of the label array, that is with trailing NUL characters dropped), the
  sorting indices of these labels are a permutation of the positions, they are the only
  indices that sort the labels, the labels read along them are strictly ascending, and the
  row of the text is its scores read along them. Scenario 3 holds for both predictors:
  labels 3, 1, 5, 2, 4 with scores 0.1, 0.5, 0.05, 0.2, 0.15 give
  0.5, 0.2, 0.1, 0.15, 0.05.
\<close>

theorem c1_scores_sorted_by_label:
  "(fasttext_predictor c texts = Inr result \<and> c texts 5 = Inr (labels, probs)
      \<and> i < length result \<and> distinct (map np_str (labels ! i))
    \<longrightarrow> mset (argsort (labels ! i)) = mset [0..<length (labels ! i)]
        \<and> sorted_wrt (<) (map (\<lambda>k. np_str (labels ! i ! k)) (argsort (labels ! i)))
        \<and> (\<forall>order. sorts (map np_str (labels ! i)) order \<longrightarrow> order = argsort (labels ! i))
        \<and> result ! i = map ((!) (probs ! i)) (argsort (labels ! i)))
   \<and> (flair_predictor c' texts' = Inr result' \<and> j < length texts'
      \<and> c' (texts' ! j) = Inr dl \<and> distinct (map np_str (map fst dl))
    \<longrightarrow> mset (argsort (map fst dl)) = mset [0..<length dl]
        \<and> sorted_wrt (<) (map (\<lambda>k. np_str (map fst dl ! k)) (argsort (map fst dl)))
        \<and> (\<forall>order. sorts (map np_str (map fst dl)) order \<longrightarrow> order = argsort (map fst dl))
        \<and> result' ! j = map ((!) (map snd dl)) (argsort (map fst dl)))
   \<and> fasttext_predictor scenario3_fasttext [t] = Inr [[0.5, 0.2, 0.1, 0.15, 0.05]]
   \<and> flair_predictor scenario3_flair [t] = Inr [[0.5, 0.2, 0.1, 0.15, 0.05]]"
proof (intro conjI impI allI)
  assume a: "fasttext_predictor c texts = Inr result \<and> c texts 5 = Inr (labels, probs)
      \<and> i < length result \<and> distinct (map np_str (labels ! i))"
  show "mset (argsort (labels ! i)) = mset [0..<length (labels ! i)]" by simp
  show "sorted_wrt (<) (map (\<lambda>k. np_str (labels ! i ! k)) (argsort (labels ! i)))"
    using a by (simp add: strict_sorted_argsort)
  show "result ! i = map ((!) (probs ! i)) (argsort (labels ! i))"
    using a fasttext_predictor_row(3) by blast
  fix order assume "sorts (map np_str (labels ! i)) order"
  then show "order = argsort (labels ! i)"
    using a sorts_unique [OF _ sorts_argsort] by blast
next
  assume a: "flair_predictor c' texts' = Inr result' \<and> j < length texts'
      \<and> c' (texts' ! j) = Inr dl \<and> distinct (map np_str (map fst dl))"
  show "mset (argsort (map fst dl)) = mset [0..<length dl]" by simp
  show "sorted_wrt (<) (map (\<lambda>k. np_str (map fst dl ! k)) (argsort (map fst dl)))"
    using a by (simp only: strict_sorted_argsort)
  show "result' ! j = map ((!) (map snd dl)) (argsort (map fst dl))"
    using a flair_predictor_row(2) by blast
  fix order assume "sorts (map np_str (map fst dl)) order"
  then show "order = argsort (map fst dl)"
    using a sorts_unique [OF _ sorts_argsort] by blast
next
  show "fasttext_predictor scenario3_fasttext [t] = Inr [[0.5, 0.2, 0.1, 0.15, 0.05]]"
    by (simp add: fasttext_predictor_def scenario3_fasttext_def argsort_def stable_order_def
        np_str_def index_by_def np_array_def uniform_def)
  show "flair_predictor scenario3_flair [t] = Inr [[0.5, 0.2, 0.1, 0.15, 0.05]]"
    by (simp add: flair_predictor_def scenario3_flair_def argsort_def stable_order_def
        np_str_def index_by_def np_array_def uniform_def)
qed

theorem c1_scores_sorted_by_label_witness:
  "fasttext_predictor scenario3_fasttext [''Light , cute and forgettable .'']
     = Inr [[0.5, 0.2, 0.1, 0.15, 0.05]]
   \<and> scenario3_fasttext [''Light , cute and forgettable .''] 5
     = Inr ([[''3'', ''1'', ''5'', ''2'', ''4'']], [[0.1, 0.5, 0.05, 0.2, 0.15]])
   \<and> (0::nat) < length [[0.5, 0.2, 0.1, 0.15, 0.05 :: real]]
   \<and> map np_str ([[''3'', ''1'', ''5'', ''2'', ''4'']] ! 0) = [''3'', ''1'', ''5'', ''2'', ''4'']
   \<and> distinct (map np_str ([[''3'', ''1'', ''5'', ''2'', ''4'']] ! 0))
   \<and> argsort [''3'', ''1'', ''5'', ''2'', ''4''] = [1, 3, 0, 4, 2]
   \<and> [[0.5, 0.2, 0.1, 0.15, 0.05 :: real]] ! 0
       = map ((!) ([[0.1, 0.5, 0.05, 0.2, 0.15]] ! 0)) (argsort ([[''3'', ''1'', ''5'', ''2'', ''4'']] ! 0))
   \<and> flair_predictor scenario3_flair [''Light , cute and forgettable .'']
     = Inr [[0.5, 0.2, 0.1, 0.15, 0.05]]
   \<and> scenario3_flair ([''Light , cute and forgettable .''] ! 0)
     = Inr [(''3'', 0.1), (''1'', 0.5), (''5'', 0.05), (''2'', 0.2), (''4'', 0.15)]"
  using c1_scores_sorted_by_label [of scenario3_fasttext "[''Light , cute and forgettable .'']"
      "[[0.5, 0.2, 0.1, 0.15, 0.05]]" "[[''3'', ''1'', ''5'', ''2'', ''4'']]"
      "[[0.1, 0.5, 0.05, 0.2, 0.15]]" 0 scenario3_flair "[''Light , cute and forgettable .'']"
      "[[0.5, 0.2, 0.1, 0.15, 0.05]]" 0
      "[(''3'', 0.1), (''1'', 0.5), (''5'', 0.05), (''2'', 0.2), (''4'', 0.15)]"
      "''Light , cute and forgettable .''"]
  by (simp add: scenario3_fasttext_def scenario3_flair_def argsort_def stable_order_def np_str_def)

text \<open>
  Claim C2. A classifier names every class once, so the native labels of a text are
  distinct (as elements of the label array). Then shuffling the paired (label, score)
  sequences of each text does not change the result of either predictor.
\<close>

theorem c2_shuffle_invariant_on_distinct_labels:
  "((\<forall>t\<in>set texts. c t = Inr (dl t) \<and> c' t = Inr (dl' t)
        \<and> mset (dl' t) = mset (dl t) \<and> distinct (map np_str (map fst (dl t))))
      \<longrightarrow> flair_predictor c' texts = flair_predictor c texts)
   \<and> (b texts 5 = Inr (labels, probs) \<and> b' texts 5 = Inr (labels', probs')
       \<and> length probs = length labels \<and> length labels' = length labels
       \<and> length probs' = length labels
       \<and> (\<forall>i<length labels. length (probs ! i) = length (labels ! i)
             \<and> length (probs' ! i) = length (labels' ! i)
             \<and> mset (zip (labels' ! i) (probs' ! i)) = mset (zip (labels ! i) (probs ! i))
             \<and> distinct (map np_str (labels ! i)))
      \<longrightarrow> fasttext_predictor b' texts = fasttext_predictor b texts)"
proof (intro conjI impI)
  assume a: "\<forall>t\<in>set texts. c t = Inr (dl t) \<and> c' t = Inr (dl' t)
        \<and> mset (dl' t) = mset (dl t) \<and> distinct (map np_str (map fst (dl t)))"
  have c: "\<forall>t\<in>set texts. c t = Inr (dl t)" and c': "\<forall>t\<in>set texts. c' t = Inr (dl' t)"
    using a by simp_all
  have len: "length (dl' t) = length (dl t)" if "t \<in> set texts" for t
    using a that by (metis size_mset)
  have "map length (map (\<lambda>t. map snd (dl' t)) texts) = map length (map (\<lambda>t. map snd (dl t)) texts)"
    using len by simp
  then have u: "uniform (map (\<lambda>t. map snd (dl' t)) texts) = uniform (map (\<lambda>t. map snd (dl t)) texts)"
    by (rule uniform_cong)
  have eq: "map ((!) (map snd (dl' t))) (argsort (map fst (dl' t)))
        = map ((!) (map snd (dl t))) (argsort (map fst (dl t)))" if "t \<in> set texts" for t
  proof (rule row_perm(1))
    show "length (map fst (dl t)) = length (map snd (dl t))" by simp
    show "length (map fst (dl' t)) = length (map snd (dl' t))" by simp
    show "mset (zip (map fst (dl' t)) (map snd (dl' t))) = mset (zip (map fst (dl t)) (map snd (dl t)))"
      using a that by (simp add: zip_map_fst_snd)
    show "distinct (map np_str (map fst (dl t)))" using a that by blast
  qed
  have "map (\<lambda>t. map ((!) (map snd (dl' t))) (argsort (map fst (dl' t)))) texts
             = map (\<lambda>t. map ((!) (map snd (dl t))) (argsort (map fst (dl t)))) texts"
    by (rule map_cong [OF refl]) (rule eq)
  then show "flair_predictor c' texts = flair_predictor c texts"
    by (simp only: flair_predictor_conv [OF c] flair_predictor_conv [OF c'] u)
next
  assume a: "b texts 5 = Inr (labels, probs) \<and> b' texts 5 = Inr (labels', probs')
       \<and> length probs = length labels \<and> length labels' = length labels
       \<and> length probs' = length labels
       \<and> (\<forall>i<length labels. length (probs ! i) = length (labels ! i)
             \<and> length (probs' ! i) = length (labels' ! i)
             \<and> mset (zip (labels' ! i) (probs' ! i)) = mset (zip (labels ! i) (probs ! i))
             \<and> distinct (map np_str (labels ! i)))"
  then have b: "b texts 5 = Inr (labels, probs)" and b': "b' texts 5 = Inr (labels', probs')"
    and lp: "length probs = length labels" and ll': "length labels' = length labels"
    and lp': "length probs' = length labels"
    by simp_all
  have per: "length (probs ! i) = length (labels ! i)" "length (probs' ! i) = length (labels' ! i)"
    "mset (zip (labels' ! i) (probs' ! i)) = mset (zip (labels ! i) (probs ! i))"
    "distinct (map np_str (labels ! i))" if "i < length labels" for i
    using a that by blast+
  let ?rows = "take (length texts) (zip labels probs)"
  let ?rows' = "take (length texts) (zip labels' probs')"
  let ?f = "\<lambda>(l, p). map ((!) (p :: score list)) (argsort l)"
  have lr: "length ?rows = min (length labels) (length texts)" using lp by simp
  have lr': "length ?rows' = min (length labels) (length texts)" using ll' lp' by simp
  have nthr: "?rows ! i = (labels ! i, probs ! i)" "?rows' ! i = (labels' ! i, probs' ! i)"
    "i < length labels" if "i < length ?rows" for i
    using that lp ll' lp' by simp_all
  have ok: "list_all (\<lambda>(l, p). length l \<le> length p) ?rows"
    unfolding list_all_length
  proof (intro allI impI)
    fix i assume i: "i < length ?rows"
    show "case ?rows ! i of (l, p) \<Rightarrow> length l \<le> length p"
      using nthr(1) [OF i] per(1) [OF nthr(3) [OF i]] by simp
  qed
  have ok': "list_all (\<lambda>(l, p). length l \<le> length p) ?rows'"
    unfolding list_all_length
  proof (intro allI impI)
    fix i assume "i < length ?rows'"
    then have i: "i < length ?rows" by (simp only: lr lr')
    show "case ?rows' ! i of (l, p) \<Rightarrow> length l \<le> length p"
      using nthr(2) [OF i] per(2) [OF nthr(3) [OF i]] by simp
  qed
  have "map length (map fst ?rows') = map length (map fst ?rows)"
  proof (rule nth_equalityI)
    show "length (map length (map fst ?rows')) = length (map length (map fst ?rows))"
      by (simp only: lr lr' length_map)
    fix i assume "i < length (map length (map fst ?rows'))"
    then have i: "i < length ?rows" and i': "i < length ?rows'" by (simp_all only: lr lr' length_map)
    have "length (labels' ! i) = length (labels ! i)"
      using per [OF nthr(3) [OF i]]
      by (intro row_perm(2) [of "labels ! i" "probs ! i" "labels' ! i" "probs' ! i"]) simp_all
    then show "map length (map fst ?rows') ! i = map length (map fst ?rows) ! i"
      using i i' nthr(1,2) [OF i] by (simp only: nth_map length_map fst_conv)
  qed
  then have u: "uniform (map fst ?rows') = uniform (map fst ?rows)" by (rule uniform_cong)
  have m: "map ?f ?rows' = map ?f ?rows"
  proof (rule nth_equalityI)
    show "length (map ?f ?rows') = length (map ?f ?rows)" by (simp only: lr lr' length_map)
    fix i assume "i < length (map ?f ?rows')"
    then have i: "i < length ?rows" and i': "i < length ?rows'" by (simp_all only: lr lr' length_map)
    have "map ((!) (probs' ! i)) (argsort (labels' ! i)) = map ((!) (probs ! i)) (argsort (labels ! i))"
      using per [OF nthr(3) [OF i]] by (intro row_perm(1)) simp_all
    then show "map ?f ?rows' ! i = map ?f ?rows ! i"
      using i i' nthr(1,2) [OF i] by (simp only: nth_map length_map prod.case)
  qed
  have "fasttext_predictor b' texts = (if uniform (map fst ?rows') then Inr (map ?f ?rows') else Inl ValueError)"
    using ok' by (simp only: fasttext_predictor_conv [of b' texts labels' probs', OF b'] if_True)
  moreover have "fasttext_predictor b texts = (if uniform (map fst ?rows) then Inr (map ?f ?rows) else Inl ValueError)"
    using ok by (simp only: fasttext_predictor_conv [of b texts labels probs, OF b] if_True)
  ultimately show "fasttext_predictor b' texts = fasttext_predictor b texts"
    using u m by (simp only:)
qed

theorem c2_shuffle_invariant_on_distinct_labels_witness:
  "scenario3_flair ''Light , cute and forgettable .''
     = Inr [(''3'', 0.1), (''1'', 0.5), (''5'', 0.05), (''2'', 0.2), (''4'', 0.15)]
   \<and> ascending_flair ''Light , cute and forgettable .''
     = Inr [(''1'', 0.5), (''2'', 0.2), (''3'', 0.1), (''4'', 0.15), (''5'', 0.05)]
   \<and> mset [(''1'', 0.5), (''2'', 0.2), (''3'', 0.1), (''4'', 0.15), (''5'', 0.05 :: real)]
     = mset [(''3'', 0.1), (''1'', 0.5), (''5'', 0.05), (''2'', 0.2), (''4'', 0.15)]
   \<and> distinct (map np_str (map fst [(''3'', 0.1 :: real), (''1'', 0.5), (''5'', 0.05), (''2'', 0.2), (''4'', 0.15)]))
   \<and> flair_predictor ascending_flair [''Light , cute and forgettable .'']
     = flair_predictor scenario3_flair [''Light , cute and forgettable .'']
   \<and> flair_predictor scenario3_flair [''Light , cute and forgettable .'']
     = Inr [[0.5, 0.2, 0.1, 0.15, 0.05]]
   \<and> fasttext_predictor ascending_fasttext [''Light , cute and forgettable .'']
     = fasttext_predictor scenario3_fasttext [''Light , cute and forgettable .'']"
  using c2_shuffle_invariant_on_distinct_labels [of "[''Light , cute and forgettable .'']"
      scenario3_flair "\<lambda>t. [(''3'', 0.1), (''1'', 0.5), (''5'', 0.05), (''2'', 0.2), (''4'', 0.15)]"
      ascending_flair "\<lambda>t. [(''1'', 0.5), (''2'', 0.2), (''3'', 0.1), (''4'', 0.15), (''5'', 0.05)]"
      scenario3_fasttext "[[''3'', ''1'', ''5'', ''2'', ''4'']]" "[[0.1, 0.5, 0.05, 0.2, 0.15]]"
      ascending_fasttext "[[''1'', ''2'', ''3'', ''4'', ''5'']]" "[[0.5, 0.2, 0.1, 0.15, 0.05]]"]
  by (simp add: scenario3_flair_def ascending_flair_def scenario3_fasttext_def ascending_fasttext_def
      flair_predictor_def fasttext_predictor_def argsort_def stable_order_def np_str_def
      index_by_def np_array_def uniform_def)

section \<open>Length of the vectors\<close>

text \<open>
  Claim C3, as stated, fails: a batch model that knows three labels returns three of them
  when asked for five, and the vector of the text has three entries, not five.
\<close>

theorem c3_three_labels_counterexample:
  "three_label_fasttext [''Light , cute and forgettable .''] 5
     = Inr ([[''__label__2'', ''__label__1'', ''__label__3'']], [[0.5, 0.3, 0.2]])
   \<and> fasttext_predictor three_label_fasttext [''Light , cute and forgettable .'']
     = Inr [[0.3, 0.5, 0.2]]
   \<and> length [0.3, 0.5, 0.2 :: real] \<noteq> 5"
  by (simp add: fasttext_predictor_def three_label_fasttext_def argsort_def stable_order_def np_str_def index_by_def
      np_array_def uniform_def)

text \<open>
  Claim C3, amended: in every result of either predictor, the vector of a text has exactly
  as many entries as the classifier returned native labels for that text; it has five
  entries when the classifier returns five labels, and no other length is checked.
\<close>

theorem c3_vector_length_is_label_count:
  "(fasttext_predictor c texts = Inr result \<and> c texts 5 = Inr (labels, probs)
      \<and> i < length result
    \<longrightarrow> length (result ! i) = length (labels ! i))
   \<and> (flair_predictor c' texts' = Inr result' \<and> j < length texts'
      \<and> c' (texts' ! j) = Inr dl
    \<longrightarrow> length (result' ! j) = length dl)"
proof (intro conjI impI)
  assume a: "fasttext_predictor c texts = Inr result \<and> c texts 5 = Inr (labels, probs)
      \<and> i < length result"
  then have "result ! i = map ((!) (probs ! i)) (argsort (labels ! i))"
    using fasttext_predictor_row(3) by blast
  then show "length (result ! i) = length (labels ! i)" by simp
next
  assume a: "flair_predictor c' texts' = Inr result' \<and> j < length texts'
      \<and> c' (texts' ! j) = Inr dl"
  then have "result' ! j = map ((!) (map snd dl)) (argsort (map fst dl))"
    using flair_predictor_row(2) by blast
  then show "length (result' ! j) = length dl" by simp
qed

theorem c3_vector_length_is_label_count_witness:
  "fasttext_predictor three_label_fasttext [''Light , cute and forgettable .'']
     = Inr [[0.3, 0.5, 0.2]]
   \<and> three_label_fasttext [''Light , cute and forgettable .''] 5
     = Inr ([[''__label__2'', ''__label__1'', ''__label__3'']], [[0.5, 0.3, 0.2]])
   \<and> (0::nat) < length [[0.3, 0.5, 0.2 :: real]]
   \<and> length ([[0.3, 0.5, 0.2 :: real]] ! 0) = length ([[''__label__2'', ''__label__1'', ''__label__3'']] ! 0)
   \<and> flair_predictor two_label_flair [''Light , cute and forgettable .''] = Inr [[0.4, 0.6]]
   \<and> (0::nat) < length [''Light , cute and forgettable .'']
   \<and> two_label_flair ([''Light , cute and forgettable .''] ! 0) = Inr [(''2'', 0.6), (''1'', 0.4)]
   \<and> length ([[0.4, 0.6 :: real]] ! 0) = length [(''2'', 0.6 :: real), (''1'', 0.4)]"
  using c3_vector_length_is_label_count [of three_label_fasttext
      "[''Light , cute and forgettable .'']" "[[0.3, 0.5, 0.2]]"
      "[[''__label__2'', ''__label__1'', ''__label__3'']]" "[[0.5, 0.3, 0.2]]" 0
      two_label_flair "[''Light , cute and forgettable .'']" "[[0.4, 0.6]]" 0
      "[(''2'', 0.6), (''1'', 0.4)]"]
  by (simp add: fasttext_predictor_def flair_predictor_def three_label_fasttext_def
      two_label_flair_def argsort_def stable_order_def np_str_def index_by_def np_array_def uniform_def)

text \<open>
  Claim C4, as stated, fails: the sequential strategy cannot ask for a class count, and on
  a classifier that returns two labels per text it raises nothing and returns vectors of
  two entries.
\<close>

theorem c4_short_prediction_counterexample:
  "two_label_flair ''It 's not horrible , just horribly mediocre .'' = Inr [(''2'', 0.6), (''1'', 0.4)]
   \<and> two_label_flair ''Light , cute and forgettable .'' = Inr [(''2'', 0.6), (''1'', 0.4)]
   \<and> flair_predictor two_label_flair
        [''It 's not horrible , just horribly mediocre .'', ''Light , cute and forgettable .'']
      = Inr [[0.4, 0.6], [0.4, 0.6]]"
  by (simp add: flair_predictor_def two_label_flair_def argsort_def stable_order_def np_str_def index_by_def
      np_array_def uniform_def)

text \<open>
  Claim C4, amended: the batch strategy always asks the classifier for five labels (the
  result depends on the classifier at k = 5 only); neither strategy checks how many labels
  come back. When every text yields n labels with n scores, also for n below five, the
  predictor raises no error and returns one vector of n entries per text, the scores of the
  text read along the sorting indices of its labels, with nothing padded.
\<close>

theorem c4_no_check_of_label_count:
  "fasttext_predictor c texts = fasttext_predictor (\<lambda>ts k. c ts 5) texts
   \<and> ((\<forall>t\<in>set texts. c' t = Inr (dl t) \<and> length (dl t) = n)
      \<longrightarrow> flair_predictor c' texts
            = Inr (map (\<lambda>t. map ((!) (map snd (dl t))) (argsort (map fst (dl t)))) texts)
        \<and> length (map (\<lambda>t. map ((!) (map snd (dl t))) (argsort (map fst (dl t)))) texts)
            = length texts
        \<and> list_all (\<lambda>v. length v = n)
            (map (\<lambda>t. map ((!) (map snd (dl t))) (argsort (map fst (dl t)))) texts))
   \<and> (c texts 5 = Inr (labels, probs) \<and> length labels = length texts
       \<and> length probs = length texts
       \<and> (\<forall>l\<in>set labels. length l = n) \<and> (\<forall>p\<in>set probs. length p = n)
      \<longrightarrow> fasttext_predictor c texts
            = Inr (map (\<lambda>(l, p). map ((!) p) (argsort l)) (zip labels probs))
        \<and> length (map (\<lambda>(l, p). map ((!) p) (argsort l)) (zip labels probs)) = length texts
        \<and> list_all (\<lambda>v. length v = n)
            (map (\<lambda>(l, p). map ((!) p) (argsort l)) (zip labels probs)))"
proof (intro conjI impI)
  show "fasttext_predictor c texts = fasttext_predictor (\<lambda>ts k. c ts 5) texts"
    by (simp add: fasttext_predictor_def)
next
  assume a: "\<forall>t\<in>set texts. c' t = Inr (dl t) \<and> length (dl t) = n"
  then have c': "\<forall>t\<in>set texts. c' t = Inr (dl t)" by simp
  have "\<forall>r\<in>set (map (\<lambda>t. map snd (dl t)) texts). length r = n"
    using a by auto
  then have "uniform (map (\<lambda>t. map snd (dl t)) texts)"
    by (rule uniform_same_length)
  then show "flair_predictor c' texts
            = Inr (map (\<lambda>t. map ((!) (map snd (dl t))) (argsort (map fst (dl t)))) texts)"
    by (simp add: flair_predictor_conv [OF c'])
  show "length (map (\<lambda>t. map ((!) (map snd (dl t))) (argsort (map fst (dl t)))) texts)
            = length texts"
    by simp
  show "list_all (\<lambda>v. length v = n)
            (map (\<lambda>t. map ((!) (map snd (dl t))) (argsort (map fst (dl t)))) texts)"
    using a by (simp add: list_all_iff)
next
  assume a: "c texts 5 = Inr (labels, probs) \<and> length labels = length texts
       \<and> length probs = length texts
       \<and> (\<forall>l\<in>set labels. length l = n) \<and> (\<forall>p\<in>set probs. length p = n)"
  then have c: "c texts 5 = Inr (labels, probs)" and l: "\<forall>l\<in>set labels. length l = n"
    and p: "\<forall>p\<in>set probs. length p = n"
    by simp_all
  have rows: "take (length texts) (zip labels probs) = zip labels probs" using a by simp
  show "fasttext_predictor c texts
            = Inr (map (\<lambda>(l, p). map ((!) p) (argsort l)) (zip labels probs))"
    using fasttext_predictor_returns [of c texts labels probs n, OF c l p] by (simp only: rows)
  show "length (map (\<lambda>(l, p). map ((!) p) (argsort l)) (zip labels probs)) = length texts"
    using a by simp
  have "length l = n" if "(l, p) \<in> set (zip labels probs)" for l p
    using l that by (meson set_zip_leftD)
  then show "list_all (\<lambda>v. length v = n)
            (map (\<lambda>(l, p). map ((!) p) (argsort l)) (zip labels probs))"
    by (auto simp: list_all_iff)
qed

theorem c4_no_check_of_label_count_witness:
  "two_label_flair ''It 's not horrible , just horribly mediocre .'' = Inr [(''2'', 0.6), (''1'', 0.4)]
   \<and> two_label_flair ''Light , cute and forgettable .'' = Inr [(''2'', 0.6), (''1'', 0.4)]
   \<and> length [(''2'', 0.6 :: real), (''1'', 0.4)] = 2
   \<and> flair_predictor two_label_flair
        [''It 's not horrible , just horribly mediocre .'', ''Light , cute and forgettable .'']
      = Inr [[0.4, 0.6], [0.4, 0.6]]
   \<and> three_label_fasttext [''Light , cute and forgettable .''] 5
     = Inr ([[''__label__2'', ''__label__1'', ''__label__3'']], [[0.5, 0.3, 0.2]])
   \<and> length [[''__label__2'', ''__label__1'', ''__label__3'']] = length [''Light , cute and forgettable .'']
   \<and> length [[0.5, 0.3, 0.2 :: real]] = length [''Light , cute and forgettable .'']
   \<and> length [''__label__2'', ''__label__1'', ''__label__3''] = 3
   \<and> length [0.5, 0.3, 0.2 :: real] = 3
   \<and> fasttext_predictor three_label_fasttext [''Light , cute and forgettable .'']
     = Inr [[0.3, 0.5, 0.2]]"
  using c4_no_check_of_label_count [where c = three_label_fasttext
      and texts = "[''It 's not horrible , just horribly mediocre .'', ''Light , cute and forgettable .'']"
      and c' = two_label_flair and dl = "\<lambda>t. [(''2'', 0.6), (''1'', 0.4)]" and n = 2]
    c4_no_check_of_label_count [where c = three_label_fasttext
      and texts = "[''Light , cute and forgettable .'']"
      and c' = two_label_flair and dl = "\<lambda>t. [(''2'', 0.6), (''1'', 0.4)]" and n = 3
      and labels = "[[''__label__2'', ''__label__1'', ''__label__3'']]"
      and probs = "[[0.5, 0.3, 0.2]]"]
  by (simp add: fasttext_predictor_def flair_predictor_def three_label_fasttext_def
      two_label_flair_def argsort_def stable_order_def np_str_def index_by_def np_array_def uniform_def)

section \<open>The two strategies compared\<close>

text \<open>
  Claim C7. When the batch classifier returns for the texts the label and score sequences
  that the sequential classifier returns text by text, \<open>fasttext_predictor\<close> and
  \<open>flair_predictor\<close> return the same value.
\<close>

theorem c7_batch_equals_sequential:
  "(\<forall>t\<in>set texts. fc t = Inr (dl t))
   \<and> bc texts 5 = Inr (map (\<lambda>t. map fst (dl t)) texts, map (\<lambda>t. map snd (dl t)) texts)
   \<longrightarrow> fasttext_predictor bc texts = flair_predictor fc texts"
proof
  assume a: "(\<forall>t\<in>set texts. fc t = Inr (dl t))
   \<and> bc texts 5 = Inr (map (\<lambda>t. map fst (dl t)) texts, map (\<lambda>t. map snd (dl t)) texts)"
  let ?labels = "map (\<lambda>t. map fst (dl t)) texts"
  let ?probs = "map (\<lambda>t. map snd (dl t)) texts"
  have fc: "\<forall>t\<in>set texts. fc t = Inr (dl t)" and bc: "bc texts 5 = Inr (?labels, ?probs)"
    using a by simp_all
  have rows: "take (length texts) (zip ?labels ?probs) = map (\<lambda>t. (map fst (dl t), map snd (dl t))) texts"
    by (simp add: zip_map_map zip_same_conv_map)
  have ok: "list_all (\<lambda>(l, p). length l \<le> length p) (map (\<lambda>t. (map fst (dl t), map snd (dl t))) texts)"
    by (simp add: list_all_iff)
  have "map length (map fst (map (\<lambda>t. (map fst (dl t), map snd (dl t))) texts)) = map length ?probs"
    by simp
  then have u: "uniform (map fst (map (\<lambda>t. (map fst (dl t), map snd (dl t))) texts)) = uniform ?probs"
    by (rule uniform_cong)
  have res: "map (\<lambda>(l, p). map ((!) p) (argsort l)) (map (\<lambda>t. (map fst (dl t), map snd (dl t))) texts)
      = map (\<lambda>t. map ((!) (map snd (dl t))) (argsort (map fst (dl t)))) texts"
    by (simp add: comp_def)
  have "fasttext_predictor bc texts =
      (if uniform ?probs then Inr (map (\<lambda>t. map ((!) (map snd (dl t))) (argsort (map fst (dl t)))) texts)
       else Inl ValueError)"
    using ok by (simp only: fasttext_predictor_conv [of bc texts ?labels ?probs, OF bc] rows u res if_True)
  then show "fasttext_predictor bc texts = flair_predictor fc texts"
    by (simp only: flair_predictor_conv [OF fc])
qed

theorem c7_batch_equals_sequential_witness:
  "scenario3_flair ''It 's not horrible , just horribly mediocre .''
     = Inr [(''3'', 0.1), (''1'', 0.5), (''5'', 0.05), (''2'', 0.2), (''4'', 0.15)]
   \<and> scenario3_flair ''Light , cute and forgettable .''
     = Inr [(''3'', 0.1), (''1'', 0.5), (''5'', 0.05), (''2'', 0.2), (''4'', 0.15)]
   \<and> scenario3_fasttext samples 5
     = Inr ([[''3'', ''1'', ''5'', ''2'', ''4''], [''3'', ''1'', ''5'', ''2'', ''4'']],
            [[0.1, 0.5, 0.05, 0.2, 0.15], [0.1, 0.5, 0.05, 0.2, 0.15]])
   \<and> fasttext_predictor scenario3_fasttext samples = flair_predictor scenario3_flair samples
   \<and> flair_predictor scenario3_flair samples
     = Inr [[0.5, 0.2, 0.1, 0.15, 0.05], [0.5, 0.2, 0.1, 0.15, 0.05]]"
  using c7_batch_equals_sequential [of samples scenario3_flair
      "\<lambda>t. [(''3'', 0.1), (''1'', 0.5), (''5'', 0.05), (''2'', 0.2), (''4'', 0.15)]"
      scenario3_fasttext]
  by (simp add: samples_def scenario3_flair_def scenario3_fasttext_def flair_predictor_def
      fasttext_predictor_def argsort_def stable_order_def np_str_def index_by_def np_array_def uniform_def)

text \<open>
  Claim C8. When the native labels of a text are already in ascending order (strictly, as
  the classes of one prediction are, and as elements of the label array), the sorting
  indices are the identity 0, 1, ..., and the row of the text in the result is its score
  sequence unchanged (for the batch classifier: a score sequence as long as the labels).
\<close>

theorem c8_ascending_labels_keep_scores:
  "(fasttext_predictor c texts = Inr result \<and> c texts 5 = Inr (labels, probs)
      \<and> i < length result \<and> sorted_wrt (<) (map np_str (labels ! i))
      \<and> length (probs ! i) = length (labels ! i)
    \<longrightarrow> argsort (labels ! i) = [0..<length (labels ! i)] \<and> result ! i = probs ! i)
   \<and> (flair_predictor c' texts' = Inr result' \<and> j < length texts'
      \<and> c' (texts' ! j) = Inr dl \<and> sorted_wrt (<) (map np_str (map fst dl))
    \<longrightarrow> argsort (map fst dl) = [0..<length dl] \<and> result' ! j = map snd dl)"
proof (intro conjI impI)
  assume a: "fasttext_predictor c texts = Inr result \<and> c texts 5 = Inr (labels, probs)
      \<and> i < length result \<and> sorted_wrt (<) (map np_str (labels ! i))
      \<and> length (probs ! i) = length (labels ! i)"
  then show id: "argsort (labels ! i) = [0..<length (labels ! i)]"
    by (simp add: argsort_ascending)
  have "result ! i = map ((!) (probs ! i)) (argsort (labels ! i))"
    using a fasttext_predictor_row(3) by blast
  moreover have "map ((!) (probs ! i)) [0..<length (probs ! i)] = probs ! i"
    by (rule map_nth)
  ultimately show "result ! i = probs ! i"
    using a by (simp add: id)
next
  assume a: "flair_predictor c' texts' = Inr result' \<and> j < length texts'
      \<and> c' (texts' ! j) = Inr dl \<and> sorted_wrt (<) (map np_str (map fst dl))"
  then show id: "argsort (map fst dl) = [0..<length dl]"
    using argsort_ascending [of "map fst dl"] by simp
  have "result' ! j = map ((!) (map snd dl)) (argsort (map fst dl))"
    using a flair_predictor_row(2) by blast
  also have "\<dots> = map ((!) (map snd dl)) [0..<length (map snd dl)]"
    by (simp add: id)
  also have "\<dots> = map snd dl" by (rule map_nth)
  finally show "result' ! j = map snd dl" .
qed

theorem c8_ascending_labels_keep_scores_witness:
  "fasttext_predictor ascending_fasttext [''Light , cute and forgettable .'']
     = Inr [[0.5, 0.2, 0.1, 0.15, 0.05]]
   \<and> ascending_fasttext [''Light , cute and forgettable .''] 5
     = Inr ([[''1'', ''2'', ''3'', ''4'', ''5'']], [[0.5, 0.2, 0.1, 0.15, 0.05]])
   \<and> (0::nat) < length [[0.5, 0.2, 0.1, 0.15, 0.05 :: real]]
   \<and> sorted_wrt (<) (map np_str ([[''1'', ''2'', ''3'', ''4'', ''5'']] ! 0))
   \<and> length ([[0.5, 0.2, 0.1, 0.15, 0.05 :: real]] ! 0) = length ([[''1'', ''2'', ''3'', ''4'', ''5'']] ! 0)
   \<and> argsort [''1'', ''2'', ''3'', ''4'', ''5''] = [0, 1, 2, 3, 4]
   \<and> flair_predictor ascending_flair [''Light , cute and forgettable .'']
     = Inr [[0.5, 0.2, 0.1, 0.15, 0.05]]
   \<and> ascending_flair ([''Light , cute and forgettable .''] ! 0)
     = Inr [(''1'', 0.5), (''2'', 0.2), (''3'', 0.1), (''4'', 0.15), (''5'', 0.05)]
   \<and> sorted_wrt (<)
        (map np_str (map fst [(''1'', 0.5 :: real), (''2'', 0.2), (''3'', 0.1), (''4'', 0.15), (''5'', 0.05)]))"
  using c8_ascending_labels_keep_scores [of ascending_fasttext "[''Light , cute and forgettable .'']"
      "[[0.5, 0.2, 0.1, 0.15, 0.05]]" "[[''1'', ''2'', ''3'', ''4'', ''5'']]"
      "[[0.5, 0.2, 0.1, 0.15, 0.05]]" 0
      ascending_flair "[''Light , cute and forgettable .'']" "[[0.5, 0.2, 0.1, 0.15, 0.05]]" 0
      "[(''1'', 0.5), (''2'', 0.2), (''3'', 0.1), (''4'', 0.15), (''5'', 0.05)]"]
  by (simp add: ascending_fasttext_def ascending_flair_def flair_predictor_def
      fasttext_predictor_def argsort_def stable_order_def np_str_def index_by_def np_array_def uniform_def)

section \<open>One vector per text\<close>

text \<open>
  Claim C9. When the classifier returns one prediction per text, every result of a predictor
  has one vector per text, the i-th vector being the scores of the i-th text sorted by its
  labels. With n labels and n scores for every text the predictor does return such a result.
\<close>

theorem c9_one_vector_per_text_in_order:
  "(c texts 5 = Inr (labels, probs) \<and> length labels = length texts
      \<and> length probs = length texts \<and> fasttext_predictor c texts = Inr result
    \<longrightarrow> length result = length texts
        \<and> (\<forall>i<length texts. result ! i = map ((!) (probs ! i)) (argsort (labels ! i))))
   \<and> (flair_predictor c' texts = Inr result'
    \<longrightarrow> length result' = length texts
        \<and> (\<forall>i<length texts. \<exists>dl. c' (texts ! i) = Inr dl
              \<and> result' ! i = map ((!) (map snd dl)) (argsort (map fst dl))))
   \<and> (c texts 5 = Inr (labels, probs) \<and> length labels = length texts
      \<and> length probs = length texts
      \<and> (\<forall>l\<in>set labels. length l = n) \<and> (\<forall>p\<in>set probs. length p = n)
    \<longrightarrow> (\<exists>r. fasttext_predictor c texts = Inr r \<and> length r = length texts))
   \<and> ((\<forall>t\<in>set texts. \<exists>dl. c' t = Inr dl \<and> length dl = n)
    \<longrightarrow> (\<exists>r. flair_predictor c' texts = Inr r \<and> length r = length texts))"
proof (intro conjI impI allI)
  assume a: "c texts 5 = Inr (labels, probs) \<and> length labels = length texts
      \<and> length probs = length texts \<and> fasttext_predictor c texts = Inr result"
  then have r: "fasttext_predictor c texts = Inr result" and c: "c texts 5 = Inr (labels, probs)"
    by simp_all
  show len: "length result = length texts"
    using fasttext_predictor_row(1) [OF r c] a by simp
  fix i assume "i < length texts"
  then have "i < length result" using len by simp
  then show "result ! i = map ((!) (probs ! i)) (argsort (labels ! i))"
    by (rule fasttext_predictor_row(3) [OF r c])
next
  assume r: "flair_predictor c' texts = Inr result'"
  show "length result' = length texts" by (rule flair_predictor_row(1) [OF r])
  fix i assume i: "i < length texts"
  then have dl: "c' (texts ! i) = Inr (projr (c' (texts ! i)))"
    using flair_predictor_answers [OF r] by simp
  show "\<exists>dl. c' (texts ! i) = Inr dl
              \<and> result' ! i = map ((!) (map snd dl)) (argsort (map fst dl))"
    using dl flair_predictor_row(2) [OF r i dl] by blast
next
  assume a: "c texts 5 = Inr (labels, probs) \<and> length labels = length texts
      \<and> length probs = length texts
      \<and> (\<forall>l\<in>set labels. length l = n) \<and> (\<forall>p\<in>set probs. length p = n)"
  then have "fasttext_predictor c texts
         = Inr (map (\<lambda>(l, p). map ((!) p) (argsort l)) (take (length texts) (zip labels probs)))"
    by (intro fasttext_predictor_returns [where n = n]) simp_all
  moreover have "length (map (\<lambda>(l, p). map ((!) p) (argsort l)) (take (length texts) (zip labels probs)))
      = length texts"
    using a by simp
  ultimately show "\<exists>r. fasttext_predictor c texts = Inr r \<and> length r = length texts"
    by blast
next
  assume a: "\<forall>t\<in>set texts. \<exists>dl. c' t = Inr dl \<and> length dl = n"
  then have c': "\<forall>t\<in>set texts. c' t = Inr (projr (c' t))" by fastforce
  have "length (projr (c' t)) = n" if "t \<in> set texts" for t
    using a that by fastforce
  then have "uniform (map (\<lambda>t. map snd (projr (c' t))) texts)"
    by (intro uniform_same_length [of _ n]) auto
  then have "flair_predictor c' texts
      = Inr (map (\<lambda>t. map ((!) (map snd (projr (c' t)))) (argsort (map fst (projr (c' t))))) texts)"
    by (simp add: flair_predictor_conv [OF c'])
  then show "\<exists>r. flair_predictor c' texts = Inr r \<and> length r = length texts"
    by simp
qed

theorem c9_one_vector_per_text_in_order_witness:
  "scenario3_fasttext samples 5
     = Inr ([[''3'', ''1'', ''5'', ''2'', ''4''], [''3'', ''1'', ''5'', ''2'', ''4'']],
            [[0.1, 0.5, 0.05, 0.2, 0.15], [0.1, 0.5, 0.05, 0.2, 0.15]])
   \<and> length [[''3'', ''1'', ''5'', ''2'', ''4''], [''3'', ''1'', ''5'', ''2'', ''4'']] = length samples
   \<and> length [[0.1, 0.5, 0.05, 0.2, 0.15 :: real], [0.1, 0.5, 0.05, 0.2, 0.15]] = length samples
   \<and> fasttext_predictor scenario3_fasttext samples
     = Inr [[0.5, 0.2, 0.1, 0.15, 0.05], [0.5, 0.2, 0.1, 0.15, 0.05]]
   \<and> length [[0.5, 0.2, 0.1, 0.15, 0.05 :: real], [0.5, 0.2, 0.1, 0.15, 0.05]] = length samples
   \<and> flair_predictor two_label_flair samples = Inr [[0.4, 0.6], [0.4, 0.6]]
   \<and> length [[0.4, 0.6 :: real], [0.4, 0.6]] = length samples
   \<and> two_label_flair (samples ! 0) = Inr [(''2'', 0.6), (''1'', 0.4)]
   \<and> two_label_flair (samples ! 1) = Inr [(''2'', 0.6), (''1'', 0.4)]
   \<and> length [(''2'', 0.6 :: real), (''1'', 0.4)] = 2"
  using c9_one_vector_per_text_in_order [where c = scenario3_fasttext and texts = samples
      and labels = "[[''3'', ''1'', ''5'', ''2'', ''4''], [''3'', ''1'', ''5'', ''2'', ''4'']]"
      and probs = "[[0.1, 0.5, 0.05, 0.2, 0.15], [0.1, 0.5, 0.05, 0.2, 0.15]]"
      and result = "[[0.5, 0.2, 0.1, 0.15, 0.05], [0.5, 0.2, 0.1, 0.15, 0.05]]"
      and c' = two_label_flair and result' = "[[0.4, 0.6], [0.4, 0.6]]" and n = 2]
  by (simp add: samples_def scenario3_fasttext_def two_label_flair_def flair_predictor_def
      fasttext_predictor_def argsort_def stable_order_def np_str_def index_by_def np_array_def uniform_def)

text \<open>
  Claim C10. The result of \<open>fasttext_predictor\<close> has as many vectors as the shortest of
  the label sequence, the score sequence and the texts; with well-formed predictions it
  returns that result without an error whatever the three lengths are. The pairing loop of
  \<open>flair_predictor\<close> truncates in the same way, on sequences that its first loop always
  builds with one entry per text.
\<close>

theorem c10_count_mismatch_is_truncated:
  "(c texts 5 = Inr (labels, probs) \<and> fasttext_predictor c texts = Inr result
    \<longrightarrow> length result = min (length labels) (min (length probs) (length texts)))
   \<and> (c texts 5 = Inr (labels, probs)
      \<and> (\<forall>l\<in>set labels. length l = n) \<and> (\<forall>p\<in>set probs. length p = n)
    \<longrightarrow> (\<exists>r. fasttext_predictor c texts = Inr r
             \<and> length r = min (length labels) (min (length probs) (length texts))))
   \<and> (flair_rows labels probs texts = Inr rows
    \<longrightarrow> length rows = min (length labels) (min (length probs) (length texts)))
   \<and> (flair_collect c' texts = Inr (labels', probs')
    \<longrightarrow> length labels' = length texts \<and> length probs' = length texts)"
proof (intro conjI impI)
  assume "c texts 5 = Inr (labels, probs) \<and> fasttext_predictor c texts = Inr result"
  then show "length result = min (length labels) (min (length probs) (length texts))"
    using fasttext_predictor_row(1) by blast
next
  assume a: "c texts 5 = Inr (labels, probs)
      \<and> (\<forall>l\<in>set labels. length l = n) \<and> (\<forall>p\<in>set probs. length p = n)"
  then have "fasttext_predictor c texts
         = Inr (map (\<lambda>(l, p). map ((!) p) (argsort l)) (take (length texts) (zip labels probs)))"
    by (intro fasttext_predictor_returns [where n = n]) simp_all
  moreover have "length (map (\<lambda>(l, p). map ((!) p) (argsort l)) (take (length texts) (zip labels probs)))
      = min (length labels) (min (length probs) (length texts))"
    by (simp add: min.commute min.left_commute)
  ultimately show "\<exists>r. fasttext_predictor c texts = Inr r
             \<and> length r = min (length labels) (min (length probs) (length texts))"
    by blast
next
  assume "flair_rows labels probs texts = Inr rows"
  then have "rows = map (\<lambda>(l, p). map ((!) p) (argsort l)) (take (length texts) (zip labels probs))"
    by (simp add: flair_rows_eq fasttext_rows_conv split: if_splits)
  then show "length rows = min (length labels) (min (length probs) (length texts))"
    by (simp add: min.commute min.left_commute)
next
  assume "flair_collect c' texts = Inr (labels', probs')"
  then show "length labels' = length texts" "length probs' = length texts"
    using flair_collect_length by blast+
qed

theorem c10_count_mismatch_is_truncated_witness:
  "single_answer_fasttext samples 5 = Inr ([[''2'', ''1'']], [[0.6, 0.4]])
   \<and> length samples = 2
   \<and> length [''2'', ''1''] = 2 \<and> length [0.6, 0.4 :: real] = 2
   \<and> fasttext_predictor single_answer_fasttext samples = Inr [[0.4, 0.6]]
   \<and> length [[0.4, 0.6 :: real]] = min (length [[''2'', ''1'']]) (min (length [[0.6, 0.4 :: real]]) (length samples))
   \<and> flair_rows [[''2'', ''1'']] [[0.6, 0.4]] samples = Inr [[0.4, 0.6]]
   \<and> flair_collect two_label_flair samples
     = Inr ([[''2'', ''1''], [''2'', ''1'']], [[0.6, 0.4], [0.6, 0.4]])
   \<and> length [[''2'', ''1''], [''2'', ''1'']] = length samples"
  using c10_count_mismatch_is_truncated [where c = single_answer_fasttext and texts = samples
      and labels = "[[''2'', ''1'']]" and probs = "[[0.6, 0.4]]" and result = "[[0.4, 0.6]]"
      and n = 2 and rows = "[[0.4, 0.6]]" and c' = two_label_flair
      and labels' = "[[''2'', ''1''], [''2'', ''1'']]" and probs' = "[[0.6, 0.4], [0.6, 0.4]]"]
  by (simp add: samples_def single_answer_fasttext_def two_label_flair_def
      fasttext_predictor_def argsort_def stable_order_def np_str_def index_by_def np_array_def uniform_def)

section \<open>The loop over the requested methods\<close>

lemma in_registry: "m \<in> set (map fst METHODS) \<longleftrightarrow> m = ''fasttext'' \<or> m = ''flair''"
  by (simp add: METHODS_def)

lemma in_method_list: "m \<in> set method_list \<longleftrightarrow> m = ''fasttext'' \<or> m = ''flair''"
  unfolding method_list_def by (rule in_registry)

lemma valid_set_msg: "join '', '' method_list = ''fasttext, flair''"
  by (simp add: method_list_def METHODS_def)

lemma main_effect:
  assumes "main env m p t (w, tr) = (r, w', tr')"
  shows "(\<exists>s. tr' = tr @ s) \<and> (m = ''fasttext'' \<or> m = ''flair'' \<longrightarrow> Load m p \<in> set tr')"
proof -
  have ft: ?thesis if m: "m = ''fasttext''"
  proof -
    obtain lr w1 where l: "load_fasttext env p w = (lr, w1)" by (cases "load_fasttext env p w")
    show ?thesis
    proof (cases lr)
      case (Inl e)
      then have "tr' = tr @ [Load m p]" using assms m l by (simp add: main_def)
      then show ?thesis by simp
    next
      case (Inr cl)
      obtain er w2 where "explain_instance env t (fasttext_predictor cl) 1 10 w1 = (er, w2)"
        by (cases "explain_instance env t (fasttext_predictor cl) 1 10 w1")
      then have "tr' = tr @ [Load m p, Explain t]" using assms m l Inr by (simp add: main_def)
      then show ?thesis by simp
    qed
  qed
  have fl: ?thesis if m: "m = ''flair''"
  proof -
    obtain lr w1 where l: "load_flair env p w = (lr, w1)" by (cases "load_flair env p w")
    show ?thesis
    proof (cases lr)
      case (Inl e)
      then have "tr' = tr @ [Load m p]" using assms m l by (simp add: main_def)
      then show ?thesis by simp
    next
      case (Inr cl)
      obtain er w2 where "explain_instance env t (flair_predictor cl) 1 10 w1 = (er, w2)"
        by (cases "explain_instance env t (flair_predictor cl) 1 10 w1")
      then have "tr' = tr @ [Load m p, Explain t]" using assms m l Inr by (simp add: main_def)
      then show ?thesis by simp
    qed
  qed
  have other: ?thesis if "m \<noteq> ''fasttext''" "m \<noteq> ''flair''"
  proof -
    have "tr' = tr" using assms that by (simp add: main_def)
    then show ?thesis using that by simp
  qed
  show ?thesis using ft fl other by blast
qed

lemma main_trace:
  assumes "main env m p t (w, tr) = (r, w', tr')"
  shows "\<exists>s. tr' = tr @ s"
  using main_effect [OF assms] by (rule conjunct1)

lemma main_loads:
  assumes "m \<in> set method_list" and "main env m p t (w, tr) = (r, w', tr')"
  shows "Load m p \<in> set tr'"
  using main_effect [OF assms(2)] assms(1) unfolding in_method_list by blast

lemma explain_samples_trace:
  "explain_samples env m p i texts (w, tr) = (r, w', tr') \<Longrightarrow> \<exists>s. tr' = tr @ s"
proof (induction texts arbitrary: i w tr)
  case Nil
  then show ?case by simp
next
  case (Cons t texts)
  obtain r1 w1 tr1 where m: "main env m p t (w, tr) = (r1, w1, tr1)"
    by (metis prod_cases3)
  obtain s1 where s1: "tr1 = tr @ s1" using main_trace [OF m] by blast
  show ?case
  proof (cases r1)
    case (Inl e)
    then show ?thesis using Cons.prems m s1 by auto
  next
    case (Inr ex)
    let ?f = "string_of_nat i @ ''-explanation-'' @ m @ ''.html''"
    obtain r2 w2 where sv: "save_to_file env ex ?f w1 = (r2, w2)" by (metis surj_pair)
    show ?thesis
    proof (cases r2)
      case (Inl e)
      then show ?thesis using Cons.prems m s1 \<open>r1 = Inr ex\<close> sv by (auto simp: Let_def)
    next
      case (Inr u)
      then have "explain_samples env m p (Suc i) texts
          (w2, tr1 @ [Save ?f, Print (''Output explainer data '' @ string_of_nat (i + 1) @ '' to HTML'')])
          = (r, w', tr')"
        using Cons.prems m \<open>r1 = Inr ex\<close> sv by (simp add: Let_def)
      then obtain s where "tr' = (tr1 @ [Save ?f, Print (''Output explainer data '' @ string_of_nat (i + 1) @ '' to HTML'')]) @ s"
        using Cons.IH [of "Suc i" w2] by blast
      then show ?thesis using s1 by simp
    qed
  qed
qed

lemma explain_samples_loads:
  assumes "m \<in> set method_list" and "explain_samples env m p i (t # texts) (w, tr) = (r, w', tr')"
  shows "Load m p \<in> set tr'"
proof -
  obtain r1 w1 tr1 where m: "main env m p t (w, tr) = (r1, w1, tr1)"
    by (metis prod_cases3)
  have l: "Load m p \<in> set tr1" by (rule main_loads [OF assms(1) m])
  show ?thesis
  proof (cases r1)
    case (Inl e)
    then show ?thesis using assms(2) m l by simp
  next
    case (Inr ex)
    let ?f = "string_of_nat i @ ''-explanation-'' @ m @ ''.html''"
    obtain r2 w2 where sv: "save_to_file env ex ?f w1 = (r2, w2)" by (metis surj_pair)
    show ?thesis
    proof (cases r2)
      case (Inl e)
      then show ?thesis using assms(2) m l \<open>r1 = Inr ex\<close> sv by (auto simp: Let_def)
    next
      case (Inr u)
      then have "explain_samples env m p (Suc i) texts
          (w2, tr1 @ [Save ?f, Print (''Output explainer data '' @ string_of_nat (i + 1) @ '' to HTML'')])
          = (r, w', tr')"
        using assms(2) m \<open>r1 = Inr ex\<close> sv by (simp add: Let_def)
      then obtain s where "tr' = (tr1 @ [Save ?f, Print (''Output explainer data '' @ string_of_nat (i + 1) @ '' to HTML'')]) @ s"
        by (rule explain_samples_trace [THEN exE])
      then show ?thesis using l by simp
    qed
  qed
qed

lemma try_body_trace:
  assumes "try_body env m (w, tr) = (r, w', tr')"
  shows "\<exists>s. tr' = tr @ s"
  using assms explain_samples_trace
  by (auto simp: try_body_def split: option.splits)

lemma try_body_loads:
  assumes "m \<in> set method_list" and "try_body env m (w, tr) = (r, w', tr')"
  shows "\<exists>p. Load m p \<in> set tr'"
proof -
  obtain p where p: "map_of METHODS m = Some p"
    using assms(1) by (auto simp: in_method_list METHODS_def)
  then have "explain_samples env m p 0 samples (w, tr) = (r, w', tr')"
    using assms(2) by (simp add: try_body_def)
  then have "Load m p \<in> set tr'"
    using explain_samples_loads [OF assms(1)] by (simp add: samples_def)
  then show ?thesis by blast
qed

text \<open>One valid method: the loop goes on with the next one, after a state that holds its load.\<close>

lemma run_methods_step:
  assumes "m \<in> set method_list"
  shows "\<exists>w1 tr1 s. run_methods env (m # ms) (w, tr) = run_methods env ms (w1, tr1)
           \<and> tr1 = tr @ s \<and> (\<exists>p. Load m p \<in> set tr1)"
proof -
  have v: "m \<in> set (map fst METHODS)" using assms by (simp add: method_list_def)
  obtain r w1 tr1 where t: "try_body env m (w, tr) = (r, w1, tr1)" by (metis prod_cases3)
  obtain s where s: "tr1 = tr @ s" using try_body_trace [OF t] by blast
  obtain p where p: "Load m p \<in> set tr1" using try_body_loads [OF assms t] by blast
  show ?thesis
  proof (cases r)
    case (Inl e)
    then have "run_methods env (m # ms) (w, tr) = run_methods env ms (w1, tr1 @ [Print_exception e])"
      using v t by simp
    moreover have "tr1 @ [Print_exception e] = tr @ (s @ [Print_exception e])" using s by simp
    moreover have "Load m p \<in> set (tr1 @ [Print_exception e])" using p by simp
    ultimately show ?thesis by blast
  next
    case (Inr u)
    then have "run_methods env (m # ms) (w, tr) = run_methods env ms (w1, tr1)"
      using v t by simp
    then show ?thesis using s p by blast
  qed
qed

lemma run_methods_trace:
  "\<exists>s. snd (snd (run_methods env ms (w, tr))) = tr @ s"
proof (induction ms arbitrary: w tr)
  case Nil
  then show ?case by simp
next
  case (Cons m ms)
  show ?case
  proof (cases "m \<in> set method_list")
    case True
    then obtain w1 tr1 s where "run_methods env (m # ms) (w, tr) = run_methods env ms (w1, tr1)"
      and "tr1 = tr @ s"
      using run_methods_step [of m env ms w tr] by blast
    moreover obtain s' where "snd (snd (run_methods env ms (w1, tr1))) = tr1 @ s'"
      using Cons.IH [of w1 tr1] by blast
    ultimately show ?thesis by simp
  next
    case False
    then show ?thesis by (simp add: method_list_def)
  qed
qed

lemma run_methods_valid:
  "set ms \<subseteq> set method_list \<Longrightarrow>
   fst (run_methods env ms (w, tr)) = 0
   \<and> (\<forall>m\<in>set ms. \<exists>p. Load m p \<in> set (snd (snd (run_methods env ms (w, tr)))))"
proof (induction ms arbitrary: w tr)
  case Nil
  then show ?case by simp
next
  case (Cons m ms)
  then have v: "m \<in> set method_list" and rest: "set ms \<subseteq> set method_list" by simp_all
  obtain w1 tr1 p where step: "run_methods env (m # ms) (w, tr) = run_methods env ms (w1, tr1)"
    and p: "Load m p \<in> set tr1"
    using run_methods_step [OF v, of env ms w tr] by blast
  obtain s' where s': "snd (snd (run_methods env ms (w1, tr1))) = tr1 @ s'"
    using run_methods_trace [of env ms w1 tr1] by blast
  have "Load m p \<in> set (snd (snd (run_methods env ms (w1, tr1))))"
    using p s' by simp
  then show ?case
    using Cons.IH [OF rest, of w1 tr1] step by auto
qed

lemma run_methods_append:
  "set pre \<subseteq> set method_list \<Longrightarrow>
   run_methods env (pre @ rest) st = run_methods env rest (snd (run_methods env pre st))"
proof (induction pre arbitrary: st)
  case Nil
  then show ?case by simp
next
  case (Cons m pre)
  then have v: "m \<in> set method_list" and rest: "set pre \<subseteq> set method_list" by simp_all
  obtain w tr where st: "st = (w, tr)" by (cases st)
  obtain w1 tr1 where a: "run_methods env (m # pre @ rest) (w, tr) = run_methods env (pre @ rest) (w1, tr1)"
    and b: "run_methods env (m # pre) (w, tr) = run_methods env pre (w1, tr1)"
  proof -
    have vv: "m \<in> set (map fst METHODS)" using v by (simp add: method_list_def)
    obtain r w1 tr1 where t: "try_body env m (w, tr) = (r, w1, tr1)" by (metis prod_cases3)
    show ?thesis
    proof (cases r)
      case (Inl e)
      then show ?thesis using that [of w1 "tr1 @ [Print_exception e]"] vv t by simp
    next
      case (Inr u)
      then show ?thesis using that [of w1 tr1] vv t by simp
    qed
  qed
  show ?case using Cons.IH [OF rest, of "(w1, tr1)"] a b st by simp
qed


text \<open>
  Claim C5, as stated, fails: the registry is consulted for one method at a time, at the
  head of the loop. With \<open>--method fasttext doesnotexist\<close> the fasttext model is loaded
  and both samples are explained and saved before the unknown value is reported.
\<close>

theorem c5_work_before_unknown_method_counterexample:
  "''doesnotexist'' \<notin> set method_list
   \<and> run_methods quiet_env [''fasttext'', ''doesnotexist''] ((), [])
     = (2, (),
        [Load ''fasttext'' ''models/fasttext/sst.bin'',
         Explain ''It 's not horrible , just horribly mediocre .'',
         Save ''0-explanation-fasttext.html'',
         Print ''Output explainer data 1 to HTML'',
         Load ''fasttext'' ''models/fasttext/sst.bin'',
         Explain ''Light , cute and forgettable .'',
         Save ''1-explanation-fasttext.html'',
         Print ''Output explainer data 2 to HTML'',
         Parser_error (''Please choose from the below existing methods! '' @ [CHR 0x0A]
                       @ ''fasttext, flair'')])"
  by (simp add: quiet_env_def method_list_def METHODS_def try_body_def samples_def main_def
      string_of_nat.simps)

text \<open>
  Claim C5, amended: when the loop reaches a value that is not in the registry, the process
  reports the valid method set (fasttext, flair) and exits with status 2, and neither this
  value nor any value after it causes a load or an explanation. If the first value is
  unknown, nothing else is done. The registered methods listed before the first unknown
  value are processed as in a run of these methods alone.
\<close>

theorem c5_unknown_method_stops_the_loop:
  "(bad \<notin> set method_list
    \<longrightarrow> run_methods env (bad # post) (w, tr)
        = (2, w, tr @ [Parser_error (''Please choose from the below existing methods! ''
                                      @ [CHR 0x0A] @ ''fasttext, flair'')]))
   \<and> (set pre \<subseteq> set method_list \<and> bad \<notin> set method_list
    \<longrightarrow> fst (run_methods env pre st) = 0
        \<and> run_methods env (pre @ bad # post) st
          = (2, fst (snd (run_methods env pre st)),
             snd (snd (run_methods env pre st))
               @ [Parser_error (''Please choose from the below existing methods! ''
                                @ [CHR 0x0A] @ ''fasttext, flair'')]))"
proof (intro conjI impI)
  assume "bad \<notin> set method_list"
  then have "bad \<notin> set (map fst METHODS)" unfolding method_list_def .
  then show "run_methods env (bad # post) (w, tr)
        = (2, w, tr @ [Parser_error (''Please choose from the below existing methods! ''
                                      @ [CHR 0x0A] @ ''fasttext, flair'')])"
    by (simp add: valid_set_msg)
next
  assume a: "set pre \<subseteq> set method_list \<and> bad \<notin> set method_list"
  then have pre: "set pre \<subseteq> set method_list" and bad: "bad \<notin> set (map fst METHODS)"
    unfolding method_list_def by blast+
  obtain w0 tr0 where st: "st = (w0, tr0)" by (cases st)
  show "fst (run_methods env pre st) = 0"
    using run_methods_valid [OF pre, of env w0 tr0] st by simp
  obtain code w1 tr1 where r: "run_methods env pre st = (code, w1, tr1)" by (metis prod_cases3)
  have "run_methods env (pre @ bad # post) st = run_methods env (bad # post) (w1, tr1)"
    using run_methods_append [OF pre, of env "bad # post" st] r by simp
  also have "\<dots> = (2, w1, tr1 @ [Parser_error (''Please choose from the below existing methods! ''
                                      @ [CHR 0x0A] @ ''fasttext, flair'')])"
    using bad by (simp add: valid_set_msg)
  finally show "run_methods env (pre @ bad # post) st
          = (2, fst (snd (run_methods env pre st)),
             snd (snd (run_methods env pre st))
               @ [Parser_error (''Please choose from the below existing methods! ''
                                @ [CHR 0x0A] @ ''fasttext, flair'')])"
    using r by simp
qed

theorem c5_unknown_method_stops_the_loop_witness:
  "''doesnotexist'' \<notin> set method_list
   \<and> run_methods quiet_env [''doesnotexist'', ''fasttext''] ((), [])
     = (2, (), [Parser_error (''Please choose from the below existing methods! '' @ [CHR 0x0A]
                               @ ''fasttext, flair'')])
   \<and> set [''flair''] \<subseteq> set method_list
   \<and> run_methods no_flair_env [''flair''] ((), [])
     = (0, (), [Load ''flair'' ''models/flair/best-model-elmo.pt'',
                Print_exception (Exception ''model file not found'')])
   \<and> run_methods no_flair_env [''flair'', ''doesnotexist'', ''fasttext''] ((), [])
     = (2, (), [Load ''flair'' ''models/flair/best-model-elmo.pt'',
                Print_exception (Exception ''model file not found''),
                Parser_error (''Please choose from the below existing methods! '' @ [CHR 0x0A]
                               @ ''fasttext, flair'')])"
  using c5_unknown_method_stops_the_loop [where bad = "''doesnotexist''" and env = quiet_env
      and post = "[''fasttext'']" and w = "()" and tr = "[]"]
    c5_unknown_method_stops_the_loop [where bad = "''doesnotexist''" and env = no_flair_env
      and post = "[''fasttext'']" and pre = "[''flair'']" and st = "((), [])"]
  by (simp add: quiet_env_def no_flair_env_def method_list_def METHODS_def try_body_def
      samples_def main_def)



end
